theory Spec2Isabelle
  imports Complex_Main
begin

section \<open>Strings\<close>

text \<open>
  A JavaScript string is modelled as a \<^typ>\<open>string\<close>: a \<^typ>\<open>char\<close> is one UTF-16 code
  unit below 256 (ASCII and the Latin-1 supplement); code units from 256 on are outside
  the model. On these, \<open>toLowerCase\<close> maps \<open>A\<close>..\<open>Z\<close> and the Latin-1 capitals
  \<open>U+00C0\<close>..\<open>U+00DE\<close> (but for the multiplication sign \<open>U+00D7\<close>) to the code unit 32
  above, and \<open>trim\<close> strips the white space and line terminators of ECMAScript that
  lie below 256: tab, line feed, vertical tab, form feed, carriage return, space and
  the no-break space \<open>U+00A0\<close>.
\<close>

definition toLowerCase_char :: "char \<Rightarrow> char" where
  "toLowerCase_char c =
     (case map_of (zip
        (''ABCDEFGHIJKLMNOPQRSTUVWXYZ'' @
         [CHR 0xC0, CHR 0xC1, CHR 0xC2, CHR 0xC3, CHR 0xC4, CHR 0xC5, CHR 0xC6, CHR 0xC7,
          CHR 0xC8, CHR 0xC9, CHR 0xCA, CHR 0xCB, CHR 0xCC, CHR 0xCD, CHR 0xCE, CHR 0xCF,
          CHR 0xD0, CHR 0xD1, CHR 0xD2, CHR 0xD3, CHR 0xD4, CHR 0xD5, CHR 0xD6,
          CHR 0xD8, CHR 0xD9, CHR 0xDA, CHR 0xDB, CHR 0xDC, CHR 0xDD, CHR 0xDE])
        (''abcdefghijklmnopqrstuvwxyz'' @
         [CHR 0xE0, CHR 0xE1, CHR 0xE2, CHR 0xE3, CHR 0xE4, CHR 0xE5, CHR 0xE6, CHR 0xE7,
          CHR 0xE8, CHR 0xE9, CHR 0xEA, CHR 0xEB, CHR 0xEC, CHR 0xED, CHR 0xEE, CHR 0xEF,
          CHR 0xF0, CHR 0xF1, CHR 0xF2, CHR 0xF3, CHR 0xF4, CHR 0xF5, CHR 0xF6,
          CHR 0xF8, CHR 0xF9, CHR 0xFA, CHR 0xFB, CHR 0xFC, CHR 0xFD, CHR 0xFE])) c of
        Some l \<Rightarrow> l
      | None \<Rightarrow> c)"

definition toLowerCase :: "string \<Rightarrow> string" where
  "toLowerCase s = map toLowerCase_char s"

fun startsWith :: "string \<Rightarrow> string \<Rightarrow> bool" where
  "startsWith s [] = True"
| "startsWith [] (n # ns) = False"
| "startsWith (c # cs) (n # ns) = (c = n \<and> startsWith cs ns)"

fun includes_str :: "string \<Rightarrow> string \<Rightarrow> bool" where
  "includes_str [] needle = (needle = [])"
| "includes_str (c # cs) needle = (startsWith (c # cs) needle \<or> includes_str cs needle)"

definition isWhiteSpace :: "char \<Rightarrow> bool" where
  "isWhiteSpace c =
     (c \<in> set [CHR 0x09, CHR 0x0A, CHR 0x0B, CHR 0x0C, CHR 0x0D, CHR 0x20, CHR 0xA0])"

definition trim :: "string \<Rightarrow> string" where
  "trim s = rev (dropWhile isWhiteSpace (rev (dropWhile isWhiteSpace s)))"

section \<open>Values\<close>

text \<open>
  The values \<open>JSON.parse\<close> produces. A number is kept as the exact rational its
  literal denotes, a string as its list of UTF-16 code units, an object as the list
  of its members in the order of the text.
\<close>

datatype json =
    JNull
  | JBool bool
  | JNumber rat
  | JString "nat list"
  | JArray "json list"
  | JObject "(nat list \<times> json) list"

text \<open>
  What a \<open>catch\<close> clause receives (\<open>error: unknown\<close>): an instance of \<open>Error\<close> with
  its message, or any other thrown value.
\<close>

datatype thrown =
    Error_instance (message: string)
  | Non_Error json

section \<open>Effects\<close>

text \<open>
  A promise is modelled by how it settles: after how long (in milliseconds, counted
  from the moment the deferred call was started) and with which outcome, a rejection
  reason (\<open>Inl\<close>) or a value (\<open>Inr\<close>). The time only orders the settlements of
  promises that are pending together; a deferred call is run to its settlement at the
  point where the program starts it.
\<close>

type_synonym 'a promise = "real \<times> (thrown + 'a)"

section \<open>Numbers\<close>

text \<open>
  A JavaScript number is an IEEE 754 binary64 value: a real number that a double
  holds, one of the two infinities, or \<open>NaN\<close>. The two zeros are not told apart. Every
  arithmetic operation gives the double nearest to the exact result, a tie going to
  the neighbour with the even significand, and an infinity once the rounded magnitude
  reaches \<open>2 ^ 1024\<close>.

  The double nearest to \<open>x \<noteq> 0\<close> is a multiple of the unit in the last place
  \<open>2 ^ (e - 52)\<close>, where \<open>e\<close> is the binary exponent of \<open>x\<close> and not less than \<open>- 1022\<close>
  (below that, the doubles are subnormal and equally spaced).
\<close>

datatype number = Finite real | PosInf | NegInf | NaN

definition round_half_even :: "real \<Rightarrow> int" where
  "round_half_even q =
     (let f = \<lfloor>q\<rfloor>
      in if q - of_int f < 1 / 2 then f
         else if 1 / 2 < q - of_int f then f + 1
         else if even f then f else f + 1)"

definition binary64_exponent :: "real \<Rightarrow> int" where
  "binary64_exponent x = max \<lfloor>log 2 \<bar>x\<bar>\<rfloor> (- 1022)"

definition binary64_ulp :: "real \<Rightarrow> real" where
  "binary64_ulp x = 2 powr of_int (binary64_exponent x - 52)"

definition binary64_nearest :: "real \<Rightarrow> real" where
  "binary64_nearest x =
     (if x = 0 then 0
      else of_int (round_half_even (x / binary64_ulp x)) * binary64_ulp x)"

definition round_number :: "real \<Rightarrow> number" where
  "round_number x =
     (let y = binary64_nearest x
      in if 2 ^ 1024 \<le> y then PosInf
         else if y \<le> - (2 ^ 1024) then NegInf
         else Finite y)"

text \<open>A number that is a double, an infinity or \<open>NaN\<close>, as every result of an operation is.\<close>

fun is_double :: "number \<Rightarrow> bool" where
  "is_double (Finite a) = (round_number a = Finite a)"
| "is_double x = True"

fun number_sgn :: "number \<Rightarrow> real" where
  "number_sgn (Finite a) = sgn a"
| "number_sgn PosInf = 1"
| "number_sgn NegInf = - 1"
| "number_sgn NaN = 0"

text \<open>The operators \<open>+\<close>, \<open>*\<close>, \<open>\<le>\<close> and \<open><\<close> on numbers.\<close>

fun number_add :: "number \<Rightarrow> number \<Rightarrow> number" where
  "number_add (Finite a) (Finite b) = round_number (a + b)"
| "number_add NaN y = NaN"
| "number_add x NaN = NaN"
| "number_add PosInf NegInf = NaN"
| "number_add NegInf PosInf = NaN"
| "number_add PosInf y = PosInf"
| "number_add x PosInf = PosInf"
| "number_add NegInf y = NegInf"
| "number_add x NegInf = NegInf"

fun number_mult :: "number \<Rightarrow> number \<Rightarrow> number" where
  "number_mult (Finite a) (Finite b) = round_number (a * b)"
| "number_mult NaN y = NaN"
| "number_mult x NaN = NaN"
| "number_mult x y =
     (if number_sgn x * number_sgn y = 0 then NaN
      else if 0 < number_sgn x * number_sgn y then PosInf
      else NegInf)"

fun number_le :: "number \<Rightarrow> number \<Rightarrow> bool" where
  "number_le (Finite a) (Finite b) = (a \<le> b)"
| "number_le NaN y = False"
| "number_le x NaN = False"
| "number_le NegInf y = True"
| "number_le x PosInf = True"
| "number_le x y = False"

fun number_less :: "number \<Rightarrow> number \<Rightarrow> bool" where
  "number_less (Finite a) (Finite b) = (a < b)"
| "number_less NaN y = False"
| "number_less x NaN = False"
| "number_less PosInf y = False"
| "number_less x NegInf = False"
| "number_less x y = True"

text \<open>
  \<open>Math.pow(2, n)\<close> for a natural number \<open>n\<close>: the power itself, which is a double up
  to \<open>n = 1023\<close>, and \<open>Infinity\<close> from \<open>n = 1024\<close> on. \<open>Math.round\<close> gives the nearest
  integer, a tie going up.
\<close>

definition Math_pow2 :: "nat \<Rightarrow> number" where
  "Math_pow2 n = round_number (2 ^ n)"

fun Math_round :: "number \<Rightarrow> number" where
  "Math_round (Finite x) = Finite (of_int \<lfloor>x + 1 / 2\<rfloor>)"
| "Math_round x = x"

text \<open>
  How long a timer set by \<open>setTimeout(resolve, delay)\<close> runs at least, in milliseconds:
  the delay is converted to a signed 32-bit integer (truncated, then wrapped around;
  \<open>NaN\<close> and the infinities become \<open>0\<close>) and a negative result counts as \<open>0\<close>.
\<close>

fun ToInt32 :: "number \<Rightarrow> int" where
  "ToInt32 (Finite x) =
     (let i = (if x < 0 then - \<lfloor>- x\<rfloor> else \<lfloor>x\<rfloor>);
          m = i mod 2 ^ 32
      in if 2 ^ 31 \<le> m then m - 2 ^ 32 else m)"
| "ToInt32 x = 0"

definition timer_wait :: "number \<Rightarrow> real" where
  "timer_wait delay = of_int (max 0 (ToInt32 delay))"

section \<open>The rate-limit classifier\<close>

fun isRateLimitError :: "thrown \<Rightarrow> bool" where
  "isRateLimitError (Error_instance msg) =
     (let message = toLowerCase msg
      in includes_str message ''quota'' \<or> includes_str message ''rate limit'' \<or>
         includes_str message ''429'')"
| "isRateLimitError (Non_Error v) = False"

section \<open>The remote service\<close>

datatype schema_type = OBJECT | STRING | ARRAY | INTEGER

datatype schema =
  Schema (schema_type: schema_type) (schema_description: "string option")
    (properties: "(string \<times> schema) list") (items: "schema option") (required: "string list")

record GenerateImagesConfig =
  numberOfImages :: nat
  outputMimeType :: string
  aspectRatio :: string

record GenerateImagesParameters =
  model :: string
  prompt :: string
  config :: GenerateImagesConfig

record GenerateContentConfig =
  systemInstruction :: string
  responseMimeType :: "string option"
  responseSchema :: "schema option"

record GenerateContentParameters =
  content_model :: string
  contents :: string
  content_config :: GenerateContentConfig

record Image =
  imageBytes :: "string option"

record GeneratedImage =
  image :: "Image option"

record GenerateImagesResponse =
  generatedImages :: "GeneratedImage list option"

record GenerateContentResponse =
  response_text :: string

text \<open>
  What the program does to the world outside: the requests it sends to the service,
  the timers it sets, what it writes to the console (the warning with the rounded
  delay, the attempt and the cap; the caught error), in the order of their happening.
  The world is the state of the service, the number of random numbers drawn so far and
  that trace.
\<close>

datatype event =
    generateImages_call GenerateImagesParameters
  | generateContent_call GenerateContentParameters
  | setTimeout number
  | console_warn number nat int
  | console_error thrown

record 's world =
  service :: 's
  draws :: nat
  trace :: "event list"

definition emit :: "event \<Rightarrow> 's world \<Rightarrow> 's world" where
  "emit ev w = w\<lparr>trace := trace w @ [ev]\<rparr>"

definition Math_random :: "(nat \<Rightarrow> real) \<Rightarrow> 's world \<Rightarrow> real \<times> 's world" where
  "Math_random random w = (random (draws w), w\<lparr>draws := Suc (draws w)\<rparr>)"

text \<open>
  The \<open>while (true)\<close> loop of \<open>callApiWithRetry\<close>; \<open>maxRetries\<close> is an integer, so
  the loop ends. \<open>elapsed\<close> is the time since the wrapper was called. The delay
  \<open>initialDelay * Math.pow(2, attempt - 1) + Math.random() * 1000\<close> is computed in
  double precision, each of the three operations rounding its result.
\<close>

function callApiWithRetry_loop ::
  "(nat \<Rightarrow> real) \<Rightarrow> ('s world \<Rightarrow> 'a promise \<times> 's world) \<Rightarrow> int \<Rightarrow> number \<Rightarrow>
     nat \<Rightarrow> real \<Rightarrow> 's world \<Rightarrow> 'a promise \<times> 's world" where
  "callApiWithRetry_loop random apiCall maxRetries initialDelay attempt elapsed w =
     (case apiCall w of
        ((t, Inr v), w1) \<Rightarrow> ((elapsed + t, Inr v), w1)
      | ((t, Inl error), w1) \<Rightarrow>
          (let attempt1 = attempt + 1 in
           if int attempt1 \<ge> maxRetries \<or> \<not> isRateLimitError error
           then ((elapsed + t, Inl error), w1)
           else
             (let (r, w2) = Math_random random w1;
                  delay = number_add (number_mult initialDelay (Math_pow2 (attempt1 - 1)))
                            (number_mult (Finite r) (Finite 1000));
                  w3 = emit (console_warn (Math_round delay) attempt1 maxRetries) w2;
                  w4 = emit (setTimeout delay) w3
              in callApiWithRetry_loop random apiCall maxRetries initialDelay attempt1
                   (elapsed + t + timer_wait delay) w4)))"
  by pat_completeness auto
termination
  by (relation "measure (\<lambda>(random, apiCall, maxRetries, initialDelay, attempt, elapsed, w).
        nat (maxRetries - int attempt))") auto

definition callApiWithRetry ::
  "(nat \<Rightarrow> real) \<Rightarrow> ('s world \<Rightarrow> 'a promise \<times> 's world) \<Rightarrow> int \<Rightarrow> number \<Rightarrow>
     's world \<Rightarrow> 'a promise \<times> 's world" where
  "callApiWithRetry random apiCall maxRetries initialDelay w =
     callApiWithRetry_loop random apiCall maxRetries initialDelay 0 0 w"

text \<open>
  A deferred call that acts on the remote service only, as an operation on the world,
  and the state of the service after \<open>k\<close> invocations of such a call in a row.
\<close>

definition on_service :: "('s \<Rightarrow> 'a promise \<times> 's) \<Rightarrow> 's world \<Rightarrow> 'a promise \<times> 's world" where
  "on_service op w = (case op (service w) of (p, s1) \<Rightarrow> (p, w\<lparr>service := s1\<rparr>))"

fun service_after :: "('s \<Rightarrow> 'a promise \<times> 's) \<Rightarrow> nat \<Rightarrow> 's \<Rightarrow> 's" where
  "service_after op 0 s = s"
| "service_after op (Suc k) s = service_after op k (snd (op s))"

fun timeouts :: "event list \<Rightarrow> number list" where
  "timeouts [] = []"
| "timeouts (setTimeout d # evs) = d # timeouts evs"
| "timeouts (ev # evs) = timeouts evs"

text \<open>
  A remote operation that plays back a script: each invocation settles as the next
  entry says, and rejects once the script is used up.
\<close>

definition replay :: "'a promise list \<Rightarrow> 'a promise \<times> 'a promise list" where
  "replay script =
     (case script of
        [] \<Rightarrow> ((0, Inl (Error_instance ''script exhausted'')), [])
      | p # ps \<Rightarrow> (p, ps))"

section \<open>The batched runner\<close>

text \<open>
  \<open>Promise.all\<close>: rejected as soon as one of the promises is, with the reason of
  the rejection that comes first in time (of two rejections at the same instant, the
  one earlier in the list); fulfilled, once all are, with the values in the order of
  the list.
\<close>

fun first_rejection :: "'a promise list \<Rightarrow> (real \<times> thrown) option" where
  "first_rejection [] = None"
| "first_rejection ((t, Inr v) # ps) = first_rejection ps"
| "first_rejection ((t, Inl e) # ps) =
     (case first_rejection ps of
        None \<Rightarrow> Some (t, e)
      | Some (t', e') \<Rightarrow> if t' < t then Some (t', e') else Some (t, e))"

fun fulfilled :: "'a promise list \<Rightarrow> 'a list" where
  "fulfilled [] = []"
| "fulfilled ((t, Inr v) # ps) = v # fulfilled ps"
| "fulfilled ((t, Inl e) # ps) = fulfilled ps"

definition last_settled :: "'a promise list \<Rightarrow> real" where
  "last_settled ps = foldr (\<lambda>p m. max (fst p) m) ps 0"

definition Promise_all :: "'a promise list \<Rightarrow> 'a list promise" where
  "Promise_all ps =
     (case first_rejection ps of
        Some (t, e) \<Rightarrow> (t, Inl e)
      | None \<Rightarrow> (last_settled ps, Inr (fulfilled ps)))"

text \<open>\<open>xs.slice(i, j)\<close> for indices \<open>0 \<le> i \<le> j\<close>.\<close>

definition slice :: "nat \<Rightarrow> nat \<Rightarrow> 'a list \<Rightarrow> 'a list" where
  "slice i j xs = take (j - i) (drop i xs)"

text \<open>\<open>batchFactories.map(factory => factory())\<close>: the deferred calls are started one
  after the other, in the order of the list.\<close>

fun start_all :: "('w \<Rightarrow> 'a promise \<times> 'w) list \<Rightarrow> 'w \<Rightarrow> 'a promise list \<times> 'w" where
  "start_all [] w = ([], w)"
| "start_all (factory # factories) w =
     (case factory w of (p, w1) \<Rightarrow>
        (case start_all factories w1 of (ps, w2) \<Rightarrow> (p # ps, w2)))"

text \<open>
  The \<open>for\<close> loop of \<open>runPromisesInBatches\<close>. With a batch size of 0 the index never
  advances and the loop does not end: the result is \<open>None\<close>.
\<close>

partial_function (option) runPromisesInBatches_loop ::
  "('w \<Rightarrow> 'a promise \<times> 'w) list \<Rightarrow> nat \<Rightarrow> nat \<Rightarrow> 'a list \<Rightarrow> real \<Rightarrow> 'w \<Rightarrow>
     ('a list promise \<times> 'w) option" where
  "runPromisesInBatches_loop promiseFactories batchSize i results elapsed w =
     (if i < length promiseFactories then
        (case start_all (slice i (i + batchSize) promiseFactories) w of
           (batchPromises, w1) \<Rightarrow>
             (case Promise_all batchPromises of
                (t, Inl e) \<Rightarrow> Some ((elapsed + t, Inl e), w1)
              | (t, Inr batchResults) \<Rightarrow>
                  runPromisesInBatches_loop promiseFactories batchSize (i + batchSize)
                    (results @ batchResults) (elapsed + t) w1))
      else Some ((elapsed, Inr results), w))"

definition runPromisesInBatches ::
  "('w \<Rightarrow> 'a promise \<times> 'w) list \<Rightarrow> nat \<Rightarrow> 'w \<Rightarrow> ('a list promise \<times> 'w) option" where
  "runPromisesInBatches promiseFactories batchSize w =
     runPromisesInBatches_loop promiseFactories batchSize 0 [] 0 w"

text \<open>A deferred call that settles as the given promise and leaves the world alone.\<close>

definition settle :: "'a promise \<Rightarrow> 'w \<Rightarrow> 'a promise \<times> 'w" where
  "settle p w = (p, w)"

text \<open>The same, leaving its mark in a world that lists the calls started so far.\<close>

definition settle_marked :: "string \<Rightarrow> 'a promise \<Rightarrow> string list \<Rightarrow> 'a promise \<times> string list" where
  "settle_marked name p w = (p, w @ [name])"

section \<open>JSON.parse\<close>

text \<open>
  The grammar of JSON texts (ECMA-404), as \<open>JSON.parse\<close> reads it. The recursion
  on nested values carries a counter, set from the length of the text; a text that is
  not a JSON text, or on which the counter runs out, makes \<open>JSON.parse\<close> throw (its
  one caller catches whatever is thrown).
\<close>

definition is_json_ws :: "char \<Rightarrow> bool" where
  "is_json_ws c = (c \<in> set [CHR 0x20, CHR 0x09, CHR 0x0A, CHR 0x0D])"

definition skip_ws :: "string \<Rightarrow> string" where
  "skip_ws cs = dropWhile is_json_ws cs"

definition digit_value :: "char \<Rightarrow> nat option" where
  "digit_value c = map_of (zip ''0123456789'' [0..<10]) c"

definition hex_value :: "char \<Rightarrow> nat option" where
  "hex_value c =
     map_of (zip ''0123456789abcdefABCDEF'' ([0..<16] @ [10..<16])) c"

definition is_digit :: "char \<Rightarrow> bool" where
  "is_digit c = (digit_value c \<noteq> None)"

definition decimal :: "string \<Rightarrow> nat" where
  "decimal ds = foldl (\<lambda>n c. 10 * n + (case digit_value c of Some d \<Rightarrow> d | None \<Rightarrow> 0)) 0 ds"

definition hex4 :: "char \<Rightarrow> char \<Rightarrow> char \<Rightarrow> char \<Rightarrow> nat option" where
  "hex4 a b c d =
     (case (hex_value a, hex_value b, hex_value c, hex_value d) of
        (Some h3, Some h2, Some h1, Some h0) \<Rightarrow> Some (((h3 * 16 + h2) * 16 + h1) * 16 + h0)
      | _ \<Rightarrow> None)"

definition escape_value :: "char \<Rightarrow> nat option" where
  "escape_value c =
     map_of [(CHR 0x22, 0x22), (CHR 0x5C, 0x5C), (CHR ''/'', 0x2F), (CHR ''b'', 0x08),
             (CHR ''f'', 0x0C), (CHR ''n'', 0x0A), (CHR ''r'', 0x0D), (CHR ''t'', 0x09)] c"

definition consed :: "'a \<Rightarrow> ('a list \<times> 'b) option \<Rightarrow> ('a list \<times> 'b) option" where
  "consed x r = map_option (\<lambda>(xs, rest). (x # xs, rest)) r"

text \<open>The characters of a string, after its opening quotation mark.\<close>

fun parse_chars :: "string \<Rightarrow> (nat list \<times> string) option" where
  "parse_chars [] = None"
| "parse_chars (c # cs) =
     (if c = CHR 0x22 then Some ([], cs)
      else if c = CHR 0x5C then
        (case cs of
           [] \<Rightarrow> None
         | e # r \<Rightarrow>
             if e = CHR ''u'' then
               (case r of
                  h3 # h2 # h1 # h0 # r4 \<Rightarrow>
                    (case hex4 h3 h2 h1 h0 of
                       None \<Rightarrow> None
                     | Some n \<Rightarrow> consed n (parse_chars r4))
                | _ \<Rightarrow> None)
             else
               (case escape_value e of
                  None \<Rightarrow> None
                | Some n \<Rightarrow> consed n (parse_chars r)))
      else if (of_char c :: nat) < 0x20 then None
      else consed (of_char c) (parse_chars cs))"

text \<open>A number: \<open>-? (0 | [1-9][0-9]*) (. [0-9]+)? ([eE] [+-]? [0-9]+)?\<close>.\<close>

definition parse_int_part :: "string \<Rightarrow> (string \<times> string) option" where
  "parse_int_part cs =
     (case cs of
        [] \<Rightarrow> None
      | c # r \<Rightarrow>
          if c = CHR ''0'' then Some ([c], r)
          else if is_digit c then Some (takeWhile is_digit cs, dropWhile is_digit cs)
          else None)"

definition parse_frac_part :: "string \<Rightarrow> (string \<times> string) option" where
  "parse_frac_part cs =
     (case cs of
        c # r \<Rightarrow>
          if c = CHR ''.'' then
            (if takeWhile is_digit r = [] then None
             else Some (takeWhile is_digit r, dropWhile is_digit r))
          else Some ([], cs)
      | [] \<Rightarrow> Some ([], cs))"

definition parse_exp_part :: "string \<Rightarrow> (int \<times> string) option" where
  "parse_exp_part cs =
     (case cs of
        c # r \<Rightarrow>
          if c = CHR ''e'' \<or> c = CHR ''E'' then
            (let (negative, r1) =
                   (case r of
                      s # r' \<Rightarrow> if s = CHR ''-'' then (True, r')
                                else if s = CHR ''+'' then (False, r') else (False, r)
                    | [] \<Rightarrow> (False, r))
             in if takeWhile is_digit r1 = [] then None
                else Some ((if negative then - 1 else 1) * int (decimal (takeWhile is_digit r1)),
                           dropWhile is_digit r1))
          else Some (0, cs)
      | [] \<Rightarrow> Some (0, cs))"

definition parse_number :: "string \<Rightarrow> (rat \<times> string) option" where
  "parse_number cs =
     (let (negative, cs1) =
            (case cs of
               c # r \<Rightarrow> if c = CHR ''-'' then (True, r) else (False, cs)
             | [] \<Rightarrow> (False, cs))
      in case parse_int_part cs1 of
           None \<Rightarrow> None
         | Some (ip, cs2) \<Rightarrow>
             (case parse_frac_part cs2 of
                None \<Rightarrow> None
              | Some (fp, cs3) \<Rightarrow>
                  (case parse_exp_part cs3 of
                     None \<Rightarrow> None
                   | Some (ex, cs4) \<Rightarrow>
                       Some ((if negative then - 1 else 1)
                               * (of_nat (decimal (ip @ fp)) / 10 ^ length fp)
                               * (if 0 \<le> ex then 10 ^ nat ex else 1 / 10 ^ nat (- ex)),
                             cs4))))"

definition parse_literal :: "string \<Rightarrow> json \<Rightarrow> string \<Rightarrow> (json \<times> string) option" where
  "parse_literal word v cs =
     (if take (length word) cs = word then Some (v, drop (length word) cs) else None)"

fun parse_value :: "nat \<Rightarrow> string \<Rightarrow> (json \<times> string) option"
  and parse_elements :: "nat \<Rightarrow> string \<Rightarrow> (json list \<times> string) option"
  and parse_members :: "nat \<Rightarrow> string \<Rightarrow> ((nat list \<times> json) list \<times> string) option" where
  "parse_value 0 cs = None"
| "parse_value (Suc n) cs =
     (case skip_ws cs of
        [] \<Rightarrow> None
      | c # r \<Rightarrow>
          if c = CHR ''{'' then
            (case skip_ws r of
               [] \<Rightarrow> None
             | c1 # r1 \<Rightarrow>
                 if c1 = CHR ''}'' then Some (JObject [], r1)
                 else map_option (\<lambda>(ms, rest). (JObject ms, rest)) (parse_members n r))
          else if c = CHR ''['' then
            (case skip_ws r of
               [] \<Rightarrow> None
             | c1 # r1 \<Rightarrow>
                 if c1 = CHR '']'' then Some (JArray [], r1)
                 else map_option (\<lambda>(vs, rest). (JArray vs, rest)) (parse_elements n r))
          else if c = CHR 0x22 then
            map_option (\<lambda>(s, rest). (JString s, rest)) (parse_chars r)
          else if c = CHR ''t'' then parse_literal ''true'' (JBool True) (c # r)
          else if c = CHR ''f'' then parse_literal ''false'' (JBool False) (c # r)
          else if c = CHR ''n'' then parse_literal ''null'' JNull (c # r)
          else map_option (\<lambda>(q, rest). (JNumber q, rest)) (parse_number (c # r)))"
| "parse_elements 0 cs = None"
| "parse_elements (Suc n) cs =
     (case parse_value n cs of
        None \<Rightarrow> None
      | Some (v, rest) \<Rightarrow>
          (case skip_ws rest of
             [] \<Rightarrow> None
           | c # r \<Rightarrow>
               if c = CHR '','' then consed v (parse_elements n r)
               else if c = CHR '']'' then Some ([v], r)
               else None))"
| "parse_members 0 cs = None"
| "parse_members (Suc n) cs =
     (case skip_ws cs of
        [] \<Rightarrow> None
      | q # r \<Rightarrow>
          if q = CHR 0x22 then
            (case parse_chars r of
               None \<Rightarrow> None
             | Some (key, rest) \<Rightarrow>
                 (case skip_ws rest of
                    [] \<Rightarrow> None
                  | c # r1 \<Rightarrow>
                      if c = CHR '':'' then
                        (case parse_value n r1 of
                           None \<Rightarrow> None
                         | Some (v, rest1) \<Rightarrow>
                             (case skip_ws rest1 of
                                [] \<Rightarrow> None
                              | c2 # r2 \<Rightarrow>
                                  if c2 = CHR '','' then consed (key, v) (parse_members n r2)
                                  else if c2 = CHR ''}'' then Some ([(key, v)], r2)
                                  else None))
                      else None))
          else None)"

definition JSON_parse :: "string \<Rightarrow> thrown + json" where
  "JSON_parse text =
     (case parse_value (Suc (2 * length text)) text of
        None \<Rightarrow> Inl (Error_instance ''SyntaxError'')
      | Some (v, rest) \<Rightarrow>
          if skip_ws rest = [] then Inr v else Inl (Error_instance ''SyntaxError''))"

section \<open>The asset generation orchestrator\<close>

record ImageView =
  label :: string
  url :: string

record EditPreferences =
  primaryColor :: string
  secondaryColor :: string
  roofMaterial :: string
  featureHighlights :: string

text \<open>
  What one generation or edit cycle returns. The cutting list is whatever value
  \<open>JSON.parse\<close> gave (the source casts it to \<open>CuttingList\<close> without a check), \<open>JNull\<close>
  being \<open>null\<close>.
\<close>

record CycleResult =
  imageViews :: "ImageView list option"
  sketchUrl :: "string option"
  cuttingList :: json
  detailedDescription :: string

text \<open>
  The service (\<open>ai.models\<close>) and the random number generator the program runs on:
  a call of the service returns a promise and moves the service to a new state.
\<close>

record 's platform =
  generateImages :: "GenerateImagesParameters \<Rightarrow> 's \<Rightarrow> GenerateImagesResponse promise \<times> 's"
  generateContent :: "GenerateContentParameters \<Rightarrow> 's \<Rightarrow> GenerateContentResponse promise \<times> 's"
  random_source :: "nat \<Rightarrow> real"

definition ai_generateImages ::
  "'s platform \<Rightarrow> GenerateImagesParameters \<Rightarrow> 's world \<Rightarrow> GenerateImagesResponse promise \<times> 's world" where
  "ai_generateImages ai params w =
     (case generateImages ai params (service w) of
        (p, s1) \<Rightarrow> (p, emit (generateImages_call params) (w\<lparr>service := s1\<rparr>)))"

definition ai_generateContent ::
  "'s platform \<Rightarrow> GenerateContentParameters \<Rightarrow> 's world \<Rightarrow> GenerateContentResponse promise \<times> 's world" where
  "ai_generateContent ai params w =
     (case generateContent ai params (service w) of
        (p, s1) \<Rightarrow> (p, emit (generateContent_call params) (w\<lparr>service := s1\<rparr>)))"

text \<open>\<open>promise.then(f)\<close> for a callback that does not throw.\<close>

definition then_promise :: "('a \<Rightarrow> 'b) \<Rightarrow> 'a promise \<Rightarrow> 'b promise" where
  "then_promise f p = (case p of (t, Inr v) \<Rightarrow> (t, Inr (f v)) | (t, Inl e) \<Rightarrow> (t, Inl e))"

text \<open>\<open>Promise.all\<close> of two promises of different types.\<close>

definition Promise_all2 :: "'a promise \<Rightarrow> 'b promise \<Rightarrow> ('a \<times> 'b) promise" where
  "Promise_all2 p q =
     (case (p, q) of
        ((t1, Inr a), (t2, Inr b)) \<Rightarrow> (max t1 t2, Inr (a, b))
      | ((t1, Inl e1), (t2, Inr b)) \<Rightarrow> (t1, Inl e1)
      | ((t1, Inr a), (t2, Inl e2)) \<Rightarrow> (t2, Inl e2)
      | ((t1, Inl e1), (t2, Inl e2)) \<Rightarrow> if t2 < t1 then (t2, Inl e2) else (t1, Inl e1))"

definition cuttingListSchema :: schema where
  "cuttingListSchema =
     Schema OBJECT None
       [(''houseName'', Schema STRING (Some
           (''A fun and creative name for the miniature house.'')) [] None []),
        (''description'', Schema STRING (Some
           (''A short, one-sentence description of the house design.'')) [] None []),
        (''materials'', Schema ARRAY (Some
           (''A list of simple craft materials needed to build the house.'')) []
           (Some (Schema OBJECT None
              [(''name'', Schema STRING (Some
           (''The name of the material (e.g., Cardboard, Craft Stick, Bottle '' @ ''Cap).'')) [] None []),
               (''quantity'', Schema INTEGER (Some
           (''The number of pieces of this material needed.'')) [] None []),
               (''dimensions'', Schema STRING (Some
           (''The size of each piece (e.g., '' @ [CHR 0x27] @ ''10cm x 15cm'' @ [CHR 0x27]
            @ '', '' @ [CHR 0x27] @ ''5cm long'' @ [CHR 0x27] @ '', '' @ [CHR 0x27]
            @ ''Standard size'' @ [CHR 0x27] @ '').'')) [] None [])]
              None [''name'', ''quantity'', ''dimensions''])) [])]
       None [''houseName'', ''description'', ''materials'']"

definition VIEWS :: "string list" where
  "VIEWS = [''Front view'', ''Back view'', ''Left side view'', ''Right side view'', ''Top-down view'']"

text \<open>The results of the image calls, told apart after batching by their tag.\<close>

datatype ImageResult =
    ViewImageResult (result_label: string) (base64: "string option")
  | SketchImageResult (base64: "string option")

definition imagen_config :: GenerateImagesConfig where
  "imagen_config = \<lparr>numberOfImages = 1, outputMimeType = ''image/jpeg'', aspectRatio = ''1:1''\<rparr>"

definition view_prompt :: "string \<Rightarrow> string \<Rightarrow> string" where
  "view_prompt desc view =
     ''A photorealistic 3D architectural render of a miniature dollhouse ''
     @ ''for kids. The design is based on this detailed description: '' @ [CHR 0x22] @ desc
     @ [CHR 0x22] @ ''. Show the '' @ view
     @ '' of the house. The style is cute, playful, and looks like a real, ''
     @ ''buildable model. White background.''"

definition sketch_prompt :: "string \<Rightarrow> string" where
  "sketch_prompt desc =
     ''A simple black and white blueprint-style line drawing of the ''
     @ ''miniature house based on this detailed description: '' @ [CHR 0x22] @ desc
     @ [CHR 0x22] @ ''. The sketch must include clear, simple measurement labels for ''
     @ ''key parts like walls, roof, door, and windows. The style should ''
     @ ''be a clean, technical drawing on a white background.''"

definition cuttingList_contents :: "string \<Rightarrow> string" where
  "cuttingList_contents desc =
     ''Based on the following detailed description, create a simple ''
     @ ''cutting list for a miniature house that a child could build with ''
     @ ''adult help. Description: '' @ [CHR 0x22] @ desc @ [CHR 0x22]"

definition view_request :: "string \<Rightarrow> string \<Rightarrow> GenerateImagesParameters" where
  "view_request desc view =
     \<lparr>model = ''imagen-4.0-generate-001'', prompt = view_prompt desc view,
      config = imagen_config\<rparr>"

definition sketch_request :: "string \<Rightarrow> GenerateImagesParameters" where
  "sketch_request desc =
     \<lparr>model = ''imagen-4.0-generate-001'', prompt = sketch_prompt desc,
      config = imagen_config\<rparr>"

definition cuttingList_request :: "string \<Rightarrow> GenerateContentParameters" where
  "cuttingList_request desc =
     \<lparr>content_model = ''gemini-2.5-flash'',
      contents = cuttingList_contents desc,
      content_config =
        \<lparr>systemInstruction =
             ''You are a helpful and creative assistant for kids who designs ''
             @ ''simple, buildable miniature houses. Based on the provided ''
             @ ''detailed description, generate a descriptive name for the house ''
             @ ''and a simple cutting list of materials. The materials should be ''
             @ ''common craft supplies like cardboard, craft sticks, or foam ''
             @ ''board. The dimensions should be easy for a child to measure and ''
             @ ''cut with adult supervision. Keep the design simple, fun, and use ''
             @ ''a maximum of 5 material types.'',
         responseMimeType = Some ''application/json'',
         responseSchema = Some cuttingListSchema\<rparr>\<rparr>"

text \<open>\<open>res.generatedImages?.[0]?.image?.imageBytes ?? null\<close>\<close>

definition first_imageBytes :: "GenerateImagesResponse \<Rightarrow> string option" where
  "first_imageBytes res =
     (case generatedImages res of
        None \<Rightarrow> None
      | Some [] \<Rightarrow> None
      | Some (g # gs) \<Rightarrow> (case image g of None \<Rightarrow> None | Some im \<Rightarrow> imageBytes im))"

text \<open>The default arguments of \<open>callApiWithRetry\<close>: \<open>maxRetries = 3, initialDelay = 1000\<close>.\<close>

definition callApiWithRetry_default ::
  "(nat \<Rightarrow> real) \<Rightarrow> ('s world \<Rightarrow> 'a promise \<times> 's world) \<Rightarrow> 's world \<Rightarrow> 'a promise \<times> 's world" where
  "callApiWithRetry_default rnd apiCall w = callApiWithRetry rnd apiCall 3 (Finite 1000) w"

definition view_factory ::
  "'s platform \<Rightarrow> string \<Rightarrow> string \<Rightarrow> 's world \<Rightarrow> ImageResult promise \<times> 's world" where
  "view_factory ai desc view w =
     (case callApiWithRetry_default (random_source ai)
             (ai_generateImages ai (view_request desc view)) w of
        (p, w1) \<Rightarrow> (then_promise (\<lambda>res. ViewImageResult view (first_imageBytes res)) p, w1))"

definition sketch_factory ::
  "'s platform \<Rightarrow> string \<Rightarrow> 's world \<Rightarrow> ImageResult promise \<times> 's world" where
  "sketch_factory ai desc w =
     (case callApiWithRetry_default (random_source ai)
             (ai_generateImages ai (sketch_request desc)) w of
        (p, w1) \<Rightarrow> (then_promise (\<lambda>res. SketchImageResult (first_imageBytes res)) p, w1))"

definition imagePromiseFactories ::
  "'s platform \<Rightarrow> string \<Rightarrow> ('s world \<Rightarrow> ImageResult promise \<times> 's world) list" where
  "imagePromiseFactories ai desc =
     map (view_factory ai desc) VIEWS @ [sketch_factory ai desc]"

text \<open>A value in a boolean position, and a value spliced into a template string.\<close>

definition truthy :: "string option \<Rightarrow> bool" where
  "truthy b = (case b of None \<Rightarrow> False | Some s \<Rightarrow> s \<noteq> [])"

definition spliced :: "string option \<Rightarrow> string" where
  "spliced b = (case b of None \<Rightarrow> ''null'' | Some s \<Rightarrow> s)"

definition is_view :: "ImageResult \<Rightarrow> bool" where
  "is_view result = (case result of ViewImageResult l b \<Rightarrow> True | SketchImageResult b \<Rightarrow> False)"

definition is_sketch :: "ImageResult \<Rightarrow> bool" where
  "is_sketch result = (case result of ViewImageResult l b \<Rightarrow> False | SketchImageResult b \<Rightarrow> True)"

definition imageViews_of :: "ImageResult list \<Rightarrow> ImageView list" where
  "imageViews_of allImageResults =
     map (\<lambda>result. \<lparr>label = result_label result,
                        url = ''data:image/jpeg;base64,'' @ spliced (base64 result)\<rparr>)
       (filter (\<lambda>result. is_view result \<and> truthy (base64 result)) allImageResults)"

definition sketchUrl_of :: "ImageResult list \<Rightarrow> string option" where
  "sketchUrl_of allImageResults =
     (case find is_sketch allImageResults of
        None \<Rightarrow> None
      | Some sketchResult \<Rightarrow>
          if truthy (base64 sketchResult)
          then Some (''data:image/jpeg;base64,'' @ spliced (base64 sketchResult))
          else None)"

text \<open>
  The \<open>try\<close> block around \<open>JSON.parse\<close>: what it throws is caught and logged, and the
  cutting list stays \<open>null\<close>.
\<close>

definition cuttingList_of :: "GenerateContentResponse \<Rightarrow> 's world \<Rightarrow> json \<times> 's world" where
  "cuttingList_of cuttingListResponse w =
     (let jsonText = trim (response_text cuttingListResponse)
      in if jsonText \<noteq> [] then
           (case JSON_parse jsonText of
              Inr v \<Rightarrow> (v, w)
            | Inl e \<Rightarrow> (JNull, emit (console_error e) w))
         else (JNull, w))"

text \<open>
  The cutting list call is started first, then the image batches; both promises are
  awaited together. The service calls are each run to settlement where they are
  started, the cutting list call before the first image call.
\<close>

definition generateAssetsFromDescription ::
  "'s platform \<Rightarrow> string \<Rightarrow> 's world \<Rightarrow> (CycleResult promise \<times> 's world) option" where
  "generateAssetsFromDescription ai desc w =
     (case callApiWithRetry_default (random_source ai)
             (ai_generateContent ai (cuttingList_request desc)) w of
        (cuttingListPromise, w1) \<Rightarrow>
          (case runPromisesInBatches (imagePromiseFactories ai desc) 3 w1 of
             None \<Rightarrow> None
           | Some (imageBatchPromise, w2) \<Rightarrow>
               (case Promise_all2 imageBatchPromise cuttingListPromise of
                  (t, Inl e) \<Rightarrow> Some ((t, Inl e), w2)
                | (t, Inr (allImageResults, cuttingListResponse)) \<Rightarrow>
                    (let views = imageViews_of allImageResults;
                         sketch = sketchUrl_of allImageResults;
                         (parsed, w3) = cuttingList_of cuttingListResponse w2
                     in Some ((t, Inr \<lparr>imageViews = (if length views > 0 then Some views else None),
                                         sketchUrl = sketch,
                                         cuttingList = parsed,
                                         detailedDescription = desc\<rparr>), w3)))))"

definition description_request :: "string \<Rightarrow> GenerateContentParameters" where
  "description_request userPrompt =
     \<lparr>content_model = ''gemini-2.5-flash'',
      contents =
        ''Based on the user'' @ [CHR 0x27]
        @ ''s idea, create a detailed and consistent architectural ''
        @ ''description for a miniature house. This description will be used ''
        @ ''to generate multiple 3D views, so it must be very specific about ''
        @ ''colors, shapes, materials, windows, doors, and unique features. '' @ ''User''
        @ [CHR 0x27] @ ''s idea: '' @ [CHR 0x22] @ userPrompt @ [CHR 0x22],
      content_config =
        \<lparr>systemInstruction =
             ''You are an imaginative architect for kids'' @ [CHR 0x27]
             @ '' toys. Your task is to expand a simple idea into a detailed, ''
             @ ''concrete description of a miniature house. Be creative but ''
             @ ''precise. Do not use markdown.'',
         responseMimeType = None,
         responseSchema = None\<rparr>\<rparr>"

definition generateHouseDesign ::
  "'s platform \<Rightarrow> string \<Rightarrow> 's world \<Rightarrow> (CycleResult promise \<times> 's world) option" where
  "generateHouseDesign ai userPrompt w =
     (case callApiWithRetry_default (random_source ai)
             (ai_generateContent ai (description_request userPrompt)) w of
        ((t, Inl e), w1) \<Rightarrow> Some ((t, Inl e), w1)
      | ((t, Inr descriptionGeneratorResponse), w1) \<Rightarrow>
          (let desc = trim (response_text descriptionGeneratorResponse)
           in if desc = [] then
                Some ((t, Inl (Error_instance
                  ''Could not generate a detailed description for the house.'')), w1)
              else
                (case generateAssetsFromDescription ai desc w1 of
                   None \<Rightarrow> None
                 | Some ((t2, r), w2) \<Rightarrow> Some ((t + t2, r), w2))))"

definition editPrompt_of :: "string \<Rightarrow> EditPreferences \<Rightarrow> string" where
  "editPrompt_of originalDescription edits =
     (let editPrompt =
            ''Based on this original house description, please generate a new, ''
            @ ''complete architectural description that incorporates the ''
            @ ''following changes. Do not just list the changes, provide the ''
            @ ''full, updated description.'' @ [CHR 0x0A] @ [CHR 0x0A];
          editPrompt = editPrompt @
            (''Original Description: '' @ [CHR 0x22] @ originalDescription @ [CHR 0x22]
             @ [CHR 0x0A] @ [CHR 0x0A]);
          editPrompt = editPrompt @ (''Requested Changes:'' @ [CHR 0x0A]);
          editPrompt =
            (if primaryColor edits \<noteq> [] then editPrompt @
               (''- Change the primary color to '' @ primaryColor edits @ ''.''
                @ [CHR 0x0A])
             else editPrompt);
          editPrompt =
            (if secondaryColor edits \<noteq> [] then editPrompt @
               (''- Change the secondary color to '' @ secondaryColor edits @ ''.''
                @ [CHR 0x0A])
             else editPrompt);
          editPrompt =
            (if roofMaterial edits \<noteq> [] then editPrompt @
               (''- Change the roof to be made of or look like '' @ roofMaterial edits
                @ ''.'' @ [CHR 0x0A])
             else editPrompt);
          editPrompt =
            (if featureHighlights edits \<noteq> [] then editPrompt @
               (''- Also, incorporate this request: '' @ featureHighlights edits @ ''.''
                @ [CHR 0x0A])
             else editPrompt)
      in editPrompt)"

definition edit_request :: "string \<Rightarrow> EditPreferences \<Rightarrow> GenerateContentParameters" where
  "edit_request originalDescription edits =
     \<lparr>content_model = ''gemini-2.5-flash'',
      contents = editPrompt_of originalDescription edits,
      content_config =
        \<lparr>systemInstruction =
             ''You are an imaginative architect for kids'' @ [CHR 0x27]
             @ '' toys. Your task is to revise an existing description of a ''
             @ ''miniature house based on user feedback. Integrate the changes ''
             @ ''seamlessly into a new, complete description. Do not use markdown.'',
         responseMimeType = None,
         responseSchema = None\<rparr>\<rparr>"

definition editHouseDesign ::
  "'s platform \<Rightarrow> string \<Rightarrow> EditPreferences \<Rightarrow> 's world \<Rightarrow> (CycleResult promise \<times> 's world) option" where
  "editHouseDesign ai originalDescription edits w =
     (case callApiWithRetry_default (random_source ai)
             (ai_generateContent ai (edit_request originalDescription edits)) w of
        ((t, Inl e), w1) \<Rightarrow> Some ((t, Inl e), w1)
      | ((t, Inr newDescriptionGeneratorResponse), w1) \<Rightarrow>
          (let newDetailedDescription = trim (response_text newDescriptionGeneratorResponse)
           in if newDetailedDescription = [] then
                Some ((t, Inl (Error_instance
                  ''Could not generate an updated description for the house.'')), w1)
              else
                (case generateAssetsFromDescription ai newDetailedDescription w1 of
                   None \<Rightarrow> None
                 | Some ((t2, r), w2) \<Rightarrow> Some ((t + t2, r), w2))))"

section \<open>Notions the properties are stated with\<close>

text \<open>
  The CuttingList shape as the specification words it: an object with a string
  \<open>houseName\<close>, a string \<open>description\<close> and an array \<open>materials\<close> of 1 to 5 objects,
  each with a string \<open>name\<close>, an integer \<open>quantity\<close> and a string \<open>dimensions\<close>. Of
  two members with one name, \<open>JSON.parse\<close> keeps the later.
\<close>

definition property_of :: "string \<Rightarrow> (nat list \<times> json) list \<Rightarrow> json option" where
  "property_of name ms = map_of (rev ms) (map of_char name)"

definition is_integer :: "rat \<Rightarrow> bool" where
  "is_integer q = (q = of_int \<lfloor>q\<rfloor>)"

fun spec_Material_shape :: "json \<Rightarrow> bool" where
  "spec_Material_shape (JObject ms) =
     (case (property_of ''name'' ms, property_of ''quantity'' ms, property_of ''dimensions'' ms) of
        (Some (JString n), Some (JNumber q), Some (JString d)) \<Rightarrow> is_integer q
      | _ \<Rightarrow> False)"
| "spec_Material_shape v = False"

fun spec_CuttingList_shape :: "json \<Rightarrow> bool" where
  "spec_CuttingList_shape (JObject ms) =
     (case (property_of ''houseName'' ms, property_of ''description'' ms,
            property_of ''materials'' ms) of
        (Some (JString n), Some (JString d), Some (JArray materials)) \<Rightarrow>
          1 \<le> length materials \<and> length materials \<le> 5 \<and> list_all spec_Material_shape materials
      | _ \<Rightarrow> False)"
| "spec_CuttingList_shape v = False"

text \<open>
  The requests one asset generation cycle for a description may send: the image
  requests of the five views and of the sketch, and the cutting list request, all
  built from that description. Any event that is not a request passes.
\<close>

definition request_of_cycle :: "string \<Rightarrow> event \<Rightarrow> bool" where
  "request_of_cycle desc ev =
     (case ev of
        generateImages_call params \<Rightarrow>
          params \<in> set (map (view_request desc) VIEWS @ [sketch_request desc])
      | generateContent_call params \<Rightarrow> params = cuttingList_request desc
      | _ \<Rightarrow> True)"

text \<open>The events of a retried call of the service with one request: that request, warnings
  and timers.\<close>

definition only_images :: "GenerateImagesParameters \<Rightarrow> event \<Rightarrow> bool" where
  "only_images params ev =
     (case ev of
        generateImages_call ps \<Rightarrow> ps = params
      | generateContent_call ps \<Rightarrow> False
      | _ \<Rightarrow> True)"

definition only_content :: "GenerateContentParameters \<Rightarrow> event \<Rightarrow> bool" where
  "only_content params ev =
     (case ev of
        generateImages_call ps \<Rightarrow> False
      | generateContent_call ps \<Rightarrow> ps = params
      | _ \<Rightarrow> True)"

text \<open>The world \<open>w\<close> comes from \<open>w0\<close> by events of one cycle for the description.\<close>

definition cycle_extends :: "string \<Rightarrow> 's world \<Rightarrow> 's world \<Rightarrow> bool" where
  "cycle_extends d w0 w = (\<exists>evs. trace w = trace w0 @ evs \<and> list_all (request_of_cycle d) evs)"

text \<open>
  The directive lines of an edit instruction as the specification words them: one line
  per field that is present, in the order primary color, secondary color, roof
  material, feature highlights; \<open>present\<close> says which values count as present.
\<close>

definition edit_preamble :: "string \<Rightarrow> string" where
  "edit_preamble originalDescription =
     ''Based on this original house description, please generate a new, ''
     @ ''complete architectural description that incorporates the ''
     @ ''following changes. Do not just list the changes, provide the ''
     @ ''full, updated description.'' @ [CHR 0x0A] @ [CHR 0x0A]
     @ ''Original Description: '' @ [CHR 0x22] @ originalDescription @ [CHR 0x22]
     @ [CHR 0x0A] @ [CHR 0x0A]
     @ ''Requested Changes:'' @ [CHR 0x0A]"

definition directive_line :: "string \<times> string \<Rightarrow> string" where
  "directive_line d = fst d @ snd d @ ''.'' @ [CHR 0x0A]"

definition spec_directives :: "(string \<Rightarrow> bool) \<Rightarrow> EditPreferences \<Rightarrow> string list" where
  "spec_directives present edits =
     map directive_line
       (filter (\<lambda>d. present (snd d))
          [(''- Change the primary color to '', primaryColor edits),
           (''- Change the secondary color to '', secondaryColor edits),
           (''- Change the roof to be made of or look like '', roofMaterial edits),
           (''- Also, incorporate this request: '', featureHighlights edits)])"

definition nonempty :: "string \<Rightarrow> bool" where
  "nonempty s = (s \<noteq> [])"

definition nonempty_after_trim :: "string \<Rightarrow> bool" where
  "nonempty_after_trim s = (trim s \<noteq> [])"

section \<open>Services to run the program on\<close>

text \<open>
  A service without state that answers every image call with the same response after
  100 ms and every content call with the same response after 50 ms.
\<close>

definition fixed_service :: "GenerateImagesResponse \<Rightarrow> GenerateContentResponse \<Rightarrow> unit platform" where
  "fixed_service imgs txt =
     \<lparr>generateImages = (\<lambda>params s. ((100, Inr imgs), s)),
      generateContent = (\<lambda>params s. ((50, Inr txt), s)),
      random_source = (\<lambda>n. 0)\<rparr>"

definition image_of :: "string option \<Rightarrow> GenerateImagesResponse" where
  "image_of bytes = \<lparr>generatedImages = Some [\<lparr>image = Some \<lparr>imageBytes = bytes\<rparr>\<rparr>]\<rparr>"

definition text_of :: "string \<Rightarrow> GenerateContentResponse" where
  "text_of s = \<lparr>response_text = s\<rparr>"

definition initial_world :: "unit world" where
  "initial_world = \<lparr>service = (), draws = 0, trace = []\<rparr>"

text \<open>The value a run returned, when it ended and its promise was fulfilled.\<close>

definition returned :: "('a promise \<times> 'w) option \<Rightarrow> 'a option" where
  "returned run =
     (case run of
        Some ((t, Inr v), w) \<Rightarrow> Some v
      | _ \<Rightarrow> None)"

text \<open>A source of random numbers that gives the same number at every draw.\<close>

definition constant_source :: "real \<Rightarrow> nat \<Rightarrow> real" where
  "constant_source r n = r"

section \<open>Properties of double-precision rounding\<close>

lemma rhe_of_int [simp]: "round_half_even (of_int n) = n"
  by (simp add: round_half_even_def)

lemma rhe_cases: "round_half_even q = \<lfloor>q\<rfloor> \<or> round_half_even q = \<lfloor>q\<rfloor> + 1"
  by (simp add: round_half_even_def Let_def)

lemma rhe_mono:
  assumes "q \<le> q'"
  shows "round_half_even q \<le> round_half_even q'"
proof (cases "\<lfloor>q\<rfloor> = \<lfloor>q'\<rfloor>")
  case True
  with assms show ?thesis
    by (auto simp: round_half_even_def Let_def)
next
  case False
  with assms have "\<lfloor>q\<rfloor> < \<lfloor>q'\<rfloor>"
    using floor_mono [OF assms] by linarith
  moreover have "round_half_even q \<le> \<lfloor>q\<rfloor> + 1" using rhe_cases [of q] by linarith
  moreover have "\<lfloor>q'\<rfloor> \<le> round_half_even q'" using rhe_cases [of q'] by linarith
  ultimately show ?thesis by linarith
qed

lemma rhe_minus: "round_half_even (- q) = - round_half_even q"
proof (cases "q = of_int \<lfloor>q\<rfloor>")
  case True
  then obtain n where "q = of_int n" ..
  then have "round_half_even (- q) = round_half_even (of_int (- n))" by simp
  also have "\<dots> = - n" by (rule rhe_of_int)
  finally show ?thesis using \<open>q = of_int n\<close> by simp
next
  case False
  then have lt: "of_int \<lfloor>q\<rfloor> < q" using of_int_floor_le [of q] by linarith
  have fl: "\<lfloor>- q\<rfloor> = - \<lfloor>q\<rfloor> - 1"
    using lt by (intro floor_unique) (auto, linarith)
  show ?thesis
    unfolding round_half_even_def Let_def fl
    using lt by (auto simp: algebra_simps)
qed


lemma rhe_nonneg: "0 \<le> q \<Longrightarrow> 0 \<le> round_half_even q"
  using rhe_mono [of 0 q] rhe_of_int [of 0] by simp

lemma rhe_le: "q \<le> of_int n \<Longrightarrow> round_half_even q \<le> n"
  using rhe_mono [of q "of_int n"] by simp

lemma rhe_ge: "of_int n \<le> q \<Longrightarrow> n \<le> round_half_even q"
  using rhe_mono [of "of_int n" q] by simp

lemma ulp_pos [simp]: "0 < binary64_ulp x"
  by (simp add: binary64_ulp_def)

lemma ulp_nonneg [simp]: "0 \<le> binary64_ulp x"
  by (simp add: binary64_ulp_def)

lemma exponent_ge: "- 1022 \<le> binary64_exponent x"
  by (simp add: binary64_exponent_def)

lemma exponent_minus [simp]: "binary64_exponent (- x) = binary64_exponent x"
  by (simp add: binary64_exponent_def)

lemma ulp_minus [simp]: "binary64_ulp (- x) = binary64_ulp x"
  by (simp add: binary64_ulp_def)

lemma nearest_minus: "binary64_nearest (- x) = - binary64_nearest x"
  by (simp add: binary64_nearest_def rhe_minus)

lemma exponent_mono:
  assumes "0 < x" "x \<le> y"
  shows "binary64_exponent x \<le> binary64_exponent y"
proof -
  have "log 2 x \<le> log 2 y" using assms by simp
  then have "\<lfloor>log 2 x\<rfloor> \<le> \<lfloor>log 2 y\<rfloor>" by (rule floor_mono)
  then show ?thesis using assms by (simp add: binary64_exponent_def)
qed

lemma exponent_upper:
  assumes "0 < x"
  shows "x < 2 powr of_int (binary64_exponent x + 1)"
proof -
  have "x < 2 powr of_int (\<lfloor>log 2 x\<rfloor> + 1)"
    using floor_log_eq_powr_iff [of x 2 "\<lfloor>log 2 x\<rfloor>"] assms by simp
  also have "\<dots> \<le> 2 powr of_int (binary64_exponent x + 1)"
    using assms by (simp add: binary64_exponent_def)
  finally show ?thesis .
qed

lemma exponent_lower:
  assumes "0 < x" "- 1022 < binary64_exponent x"
  shows "2 powr of_int (binary64_exponent x) \<le> x"
proof -
  have "binary64_exponent x = \<lfloor>log 2 x\<rfloor>"
    using assms by (simp add: binary64_exponent_def max_def split: if_splits)
  then show ?thesis
    using floor_log_eq_powr_iff [of x 2 "\<lfloor>log 2 x\<rfloor>"] assms by simp
qed

lemma exponent_eqI:
  assumes "0 < x" "- 1022 \<le> e" "2 powr of_int e \<le> x" "x < 2 powr of_int (e + 1)"
  shows "binary64_exponent x = e"
proof -
  have "\<lfloor>log 2 x\<rfloor> = e"
    using floor_log_eq_powr_iff [of x 2 e] assms by simp
  then show ?thesis using assms by (simp add: binary64_exponent_def)
qed

lemma exponent_subnormal:
  assumes "0 < x" "x < 2 powr of_int (- 1022)"
  shows "binary64_exponent x = - 1022"
proof -
  have "log 2 x < of_int (- 1022)"
    using assms less_powr_iff [of 2 x "of_int (- 1022)"] by simp
  then have "\<lfloor>log 2 x\<rfloor> < - 1022" by (simp add: floor_less_iff)
  then show ?thesis using assms by (simp add: binary64_exponent_def)
qed

lemma powr_split: "(2::real) powr of_int (e + 1) = 2 ^ 53 * 2 powr of_int (e - 52)"
proof -
  have "(2::real) powr of_int (e + 1) = 2 powr (53 + of_int (e - 52))"
    by (simp add: add.commute)
  also have "\<dots> = 2 powr 53 * 2 powr of_int (e - 52)" by (rule powr_add)
  finally show ?thesis by simp
qed

lemma powr_split0: "(2::real) powr of_int e = 2 ^ 52 * 2 powr of_int (e - 52)"
proof -
  have "(2::real) powr of_int e = 2 powr (52 + of_int (e - 52))" by simp
  also have "\<dots> = 2 powr 52 * 2 powr of_int (e - 52)" by (rule powr_add)
  finally show ?thesis by simp
qed

lemma quotient_upper:
  assumes "0 < x"
  shows "x / binary64_ulp x < 2 ^ 53"
proof -
  have "x < 2 ^ 53 * binary64_ulp x"
    using exponent_upper [OF assms] powr_split [of "binary64_exponent x"]
    unfolding binary64_ulp_def by simp
  then show ?thesis
    by (simp add: pos_divide_less_eq)
qed

lemma quotient_lower:
  assumes "0 < x" "- 1022 < binary64_exponent x"
  shows "2 ^ 52 \<le> x / binary64_ulp x"
proof -
  have "2 ^ 52 * binary64_ulp x \<le> x"
    using exponent_lower [OF assms] powr_split0 [of "binary64_exponent x"]
    unfolding binary64_ulp_def by simp
  then show ?thesis
    by (simp add: pos_le_divide_eq)
qed

lemma significand_upper:
  assumes "0 < x"
  shows "round_half_even (x / binary64_ulp x) \<le> 2 ^ 53"
  using quotient_upper [OF assms] by (intro rhe_le) simp

lemma significand_lower:
  assumes "0 < x" "- 1022 < binary64_exponent x"
  shows "2 ^ 52 \<le> round_half_even (x / binary64_ulp x)"
  using quotient_lower [OF assms] by (intro rhe_ge) simp

lemma significand_nonneg:
  assumes "0 < x"
  shows "0 \<le> round_half_even (x / binary64_ulp x)"
  using assms by (intro rhe_nonneg) simp

lemma nearest_upper:
  assumes "0 < x"
  shows "binary64_nearest x \<le> 2 powr of_int (binary64_exponent x + 1)"
proof -
  have "of_int (round_half_even (x / binary64_ulp x)) \<le> (2 ^ 53 :: real)"
    using significand_upper [OF assms] by (metis of_int_le_iff of_int_numeral of_int_power)
  then have "of_int (round_half_even (x / binary64_ulp x)) * binary64_ulp x \<le> 2 ^ 53 * binary64_ulp x"
    by (simp add: mult_right_mono)
  moreover have "binary64_nearest x = of_int (round_half_even (x / binary64_ulp x)) * binary64_ulp x"
    using assms by (simp add: binary64_nearest_def)
  moreover have "2 powr of_int (binary64_exponent x + 1) = 2 ^ 53 * binary64_ulp x"
    unfolding binary64_ulp_def by (rule powr_split)
  ultimately show ?thesis by simp
qed

lemma nearest_lower:
  assumes "0 < x" "- 1022 < binary64_exponent x"
  shows "2 powr of_int (binary64_exponent x) \<le> binary64_nearest x"
proof -
  have "(2 ^ 52 :: real) \<le> of_int (round_half_even (x / binary64_ulp x))"
    using significand_lower [OF assms] by (metis of_int_le_iff of_int_numeral of_int_power)
  then have "2 ^ 52 * binary64_ulp x \<le> of_int (round_half_even (x / binary64_ulp x)) * binary64_ulp x"
    by (simp add: mult_right_mono)
  moreover have "binary64_nearest x = of_int (round_half_even (x / binary64_ulp x)) * binary64_ulp x"
    using assms by (simp add: binary64_nearest_def)
  moreover have "2 powr of_int (binary64_exponent x) = 2 ^ 52 * binary64_ulp x"
    unfolding binary64_ulp_def by (rule powr_split0)
  ultimately show ?thesis by simp
qed

lemma nearest_nonneg:
  assumes "0 \<le> x"
  shows "0 \<le> binary64_nearest x"
  using assms rhe_nonneg [of "x / binary64_ulp x"]
  by (simp add: binary64_nearest_def)

lemma nearest_mono_pos:
  assumes "0 < x" "x \<le> y"
  shows "binary64_nearest x \<le> binary64_nearest y"
proof (cases "binary64_exponent x = binary64_exponent y")
  case True
  then have u: "binary64_ulp x = binary64_ulp y" by (simp add: binary64_ulp_def)
  have "x / binary64_ulp y \<le> y / binary64_ulp y"
    using assms by (simp add: divide_right_mono)
  then have "round_half_even (x / binary64_ulp y) \<le> round_half_even (y / binary64_ulp y)"
    by (rule rhe_mono)
  then have "real_of_int (round_half_even (x / binary64_ulp y)) * binary64_ulp y
      \<le> real_of_int (round_half_even (y / binary64_ulp y)) * binary64_ulp y"
    by (simp add: mult_right_mono)
  then show ?thesis using assms u by (simp add: binary64_nearest_def)
next
  case False
  have y: "0 < y" using assms by simp
  have lt: "binary64_exponent x < binary64_exponent y"
    using exponent_mono [OF assms] False by simp
  then have big: "- 1022 < binary64_exponent y"
    using exponent_ge [of x] by linarith
  have "binary64_nearest x \<le> 2 powr of_int (binary64_exponent x + 1)"
    by (rule nearest_upper [OF assms(1)])
  also have "\<dots> \<le> 2 powr of_int (binary64_exponent y)"
    using lt by simp
  also have "\<dots> \<le> binary64_nearest y"
    by (rule nearest_lower [OF y big])
  finally show ?thesis .
qed

lemma nearest_mono:
  assumes "x \<le> y"
  shows "binary64_nearest x \<le> binary64_nearest y"
proof -
  consider "0 < x" | "x \<le> 0" "0 \<le> y" | "y < 0" by linarith
  then show ?thesis
  proof cases
    case 1
    then show ?thesis using assms by (rule nearest_mono_pos)
  next
    case 2
    have "0 \<le> binary64_nearest (- x)" using 2 by (intro nearest_nonneg) simp
    then have "binary64_nearest x \<le> 0" by (simp add: nearest_minus)
    also have "0 \<le> binary64_nearest y" using 2 by (intro nearest_nonneg)
    finally show ?thesis .
  next
    case 3
    have "binary64_nearest (- y) \<le> binary64_nearest (- x)"
      using 3 assms by (intro nearest_mono_pos) simp_all
    then show ?thesis by (simp add: nearest_minus)
  qed
qed

lemma powr_shift:
  assumes "e \<le> k"
  shows "(2::real) powr of_int k = 2 ^ nat (k - e) * 2 powr of_int e"
proof -
  have "(2::real) powr of_int k = 2 powr (of_nat (nat (k - e)) + of_int e)"
    using assms by simp
  also have "\<dots> = 2 powr of_nat (nat (k - e)) * 2 powr of_int e" by (rule powr_add)
  finally show ?thesis by (simp add: powr_realpow)
qed

lemma nearest_representable_pos:
  assumes n: "0 < n" "n < 2 ^ 53" and k: "- 1074 \<le> k"
  shows "binary64_nearest (of_int n * 2 powr of_int k) = of_int n * 2 powr of_int k"
proof -
  define x where "x = real_of_int n * 2 powr of_int k"
  have pos: "0 < x" using n by (simp add: x_def)
  have "real_of_int n < 2 ^ 53" using n(2) by (metis of_int_less_iff of_int_numeral of_int_power)
  then have "x < 2 ^ 53 * 2 powr of_int k" by (simp add: x_def)
  also have "\<dots> = 2 powr of_int (k + 52 + 1)" using powr_split [of "k + 52"] by simp
  finally have "x < 2 powr of_int (k + 52 + 1)" .
  then have "log 2 x < of_int (k + 52 + 1)"
    using pos less_powr_iff [of 2 x "of_int (k + 52 + 1)"] by simp
  then have "\<lfloor>log 2 x\<rfloor> < k + 52 + 1" by (simp add: floor_less_iff)
  then have e: "binary64_exponent x - 52 \<le> k"
    using pos k by (simp add: binary64_exponent_def)
  define m where "m = nat (k - (binary64_exponent x - 52))"
  have shift: "2 powr of_int k = 2 ^ m * binary64_ulp x"
    unfolding m_def binary64_ulp_def by (rule powr_shift [OF e])
  then have x: "x = of_int (n * 2 ^ m) * binary64_ulp x" by (simp add: x_def)
  have "x / binary64_ulp x = of_int (n * 2 ^ m)"
    using x ulp_pos [of x] by (metis nonzero_mult_div_cancel_right less_numeral_extra(3))
  then have "round_half_even (x / binary64_ulp x) = n * 2 ^ m" by (simp only: rhe_of_int)
  then have "binary64_nearest x = of_int (n * 2 ^ m) * binary64_ulp x"
    using pos by (simp add: binary64_nearest_def)
  also have "\<dots> = x" by (rule x [symmetric])
  finally show ?thesis unfolding x_def .
qed

lemma nearest_representable:
  assumes n: "\<bar>n\<bar> < 2 ^ 53" and k: "- 1074 \<le> k"
  shows "binary64_nearest (of_int n * 2 powr of_int k) = of_int n * 2 powr of_int k"
proof -
  consider "0 < n" | "n = 0" | "n < 0" by linarith
  then show ?thesis
  proof cases
    case 1
    then show ?thesis using n k by (intro nearest_representable_pos) simp_all
  next
    case 2
    then show ?thesis by (simp add: binary64_nearest_def)
  next
    case 3
    then have "binary64_nearest (of_int (- n) * 2 powr of_int k) = of_int (- n) * 2 powr of_int k"
      using n k by (intro nearest_representable_pos) simp_all
    then have "binary64_nearest (- (of_int n * 2 powr of_int k)) = - (of_int n * 2 powr of_int k)"
      by simp
    then show ?thesis by (simp only: nearest_minus neg_equal_iff_equal)
  qed
qed

lemma nearest_of_int:
  assumes "\<bar>n\<bar> < 2 ^ 53"
  shows "binary64_nearest (of_int n) = of_int n"
  using nearest_representable [OF assms, of 0] by simp

lemma nearest_power_of_2: "binary64_nearest (2 ^ n) = 2 ^ n"
proof -
  have "binary64_nearest (of_int 1 * 2 powr of_int (int n)) = of_int 1 * 2 powr of_int (int n)"
    by (rule nearest_representable) simp_all
  then show ?thesis by (simp add: powr_realpow)
qed

lemma nearest_idem_pos:
  assumes "0 < x"
  shows "binary64_nearest (binary64_nearest x) = binary64_nearest x"
proof -
  define n where "n = round_half_even (x / binary64_ulp x)"
  define k where "k = binary64_exponent x - 52"
  have fl: "binary64_nearest x = of_int n * 2 powr of_int k"
    using assms by (simp add: binary64_nearest_def n_def k_def binary64_ulp_def)
  have k: "- 1074 \<le> k" using exponent_ge [of x] by (simp add: k_def)
  have n0: "0 \<le> n" unfolding n_def by (rule significand_nonneg [OF assms])
  have n1: "n \<le> 2 ^ 53" unfolding n_def by (rule significand_upper [OF assms])
  show ?thesis
  proof (cases "n = 2 ^ 53")
    case True
    have "(2::real) powr of_int (k + 1) = 2 * 2 powr of_int k"
      using powr_shift [of k "k + 1"] by simp
    then have eq: "binary64_nearest x = of_int (2 ^ 52) * 2 powr of_int (k + 1)"
      using fl True by simp
    have "binary64_nearest (of_int (2 ^ 52) * 2 powr of_int (k + 1)) = of_int (2 ^ 52) * 2 powr of_int (k + 1)"
      using k by (intro nearest_representable) simp_all
    then show ?thesis by (simp only: eq)
  next
    case False
    then have "\<bar>n\<bar> < 2 ^ 53" using n0 n1 by simp
    then show ?thesis unfolding fl using k by (rule nearest_representable)
  qed
qed

lemma nearest_idem: "binary64_nearest (binary64_nearest x) = binary64_nearest x"
proof -
  consider "0 < x" | "x = 0" | "x < 0" by linarith
  then show ?thesis
  proof cases
    case 1
    then show ?thesis by (rule nearest_idem_pos)
  next
    case 2
    then show ?thesis by (simp add: binary64_nearest_def)
  next
    case 3
    then have "binary64_nearest (binary64_nearest (- x)) = binary64_nearest (- x)"
      by (intro nearest_idem_pos) simp
    then show ?thesis by (simp add: nearest_minus)
  qed
qed

lemma round_number_mono:
  assumes "x \<le> y"
  shows "number_le (round_number x) (round_number y)"
  using nearest_mono [OF assms] by (simp add: round_number_def Let_def)

lemma round_number_not_NaN [simp]: "round_number x \<noteq> NaN"
  by (simp add: round_number_def Let_def)

lemma is_double_round_number: "is_double (round_number x)"
  by (simp add: round_number_def Let_def nearest_idem)

lemma is_double_number_mult: "is_double (number_mult x y)"
  by (cases x; cases y) (simp_all add: is_double_round_number)

lemma round_number_of_int:
  assumes "\<bar>n\<bar> < 2 ^ 53"
  shows "round_number (of_int n) = Finite (of_int n)"
proof -
  have "\<bar>real_of_int n\<bar> < 2 ^ 53"
    using assms by (metis of_int_abs of_int_less_iff of_int_numeral of_int_power)
  moreover have "(2::real) ^ 53 \<le> 2 ^ 1024" by (rule power_increasing) simp_all
  ultimately have "real_of_int n < 2 ^ 1024" "- (2 ^ 1024) < real_of_int n" by linarith+
  then show ?thesis
    by (simp add: round_number_def nearest_of_int [OF assms] not_le [symmetric])
qed

lemma jitter_bounds:
  assumes "0 \<le> r" "r < 1"
  shows "\<exists>j. number_mult (Finite r) (Finite 1000) = Finite j \<and> 0 \<le> j \<and> j \<le> 1000"
proof -
  have thousand: "binary64_nearest 1000 = 1000"
    using nearest_of_int [of 1000] by simp
  have lo: "0 \<le> binary64_nearest (r * 1000)"
    using assms by (intro nearest_nonneg) simp
  have "binary64_nearest (r * 1000) \<le> binary64_nearest 1000"
    using assms by (intro nearest_mono) simp
  then have hi: "binary64_nearest (r * 1000) \<le> 1000" by (simp only: thousand)
  have "(1000::real) < 2 ^ 10" by simp
  also have "(2::real) ^ 10 \<le> 2 ^ 1024" by (rule power_increasing) simp_all
  finally have "binary64_nearest (r * 1000) < 2 ^ 1024" using hi by linarith
  moreover have "- (2 ^ 1024) < binary64_nearest (r * 1000)"
    using lo by (smt (verit) zero_less_power)
  ultimately have "round_number (r * 1000) = Finite (binary64_nearest (r * 1000))"
    by (simp add: round_number_def Let_def not_le [symmetric])
  then show ?thesis using lo hi by simp
qed

lemma number_le_refl: "x \<noteq> NaN \<Longrightarrow> number_le x x"
  by (cases x) simp_all

lemma delay_bounds:
  assumes "0 \<le> r" "r < 1" "is_double base" "base \<noteq> NaN"
  shows "number_le base (number_add base (number_mult (Finite r) (Finite 1000)))
       \<and> number_le (number_add base (number_mult (Finite r) (Finite 1000)))
           (number_add base (Finite 1000))"
proof -
  obtain j where j: "number_mult (Finite r) (Finite 1000) = Finite j" "0 \<le> j" "j \<le> 1000"
    using jitter_bounds [OF assms(1,2)] by blast
  show ?thesis
  proof (cases base)
    case (Finite a)
    have "number_le (round_number a) (round_number (a + j))"
      using j by (intro round_number_mono) simp
    moreover have "number_le (round_number (a + j)) (round_number (a + 1000))"
      using j by (intro round_number_mono) simp
    moreover have "round_number a = Finite a" using assms(3) Finite by simp
    ultimately show ?thesis using Finite j(1) by simp
  qed (use assms j in simp_all)
qed

lemma rhe_down:
  assumes "0 \<le> d" "d < 1 / 2"
  shows "round_half_even (of_int n + d) = n"
proof -
  have "\<lfloor>of_int n + d\<rfloor> = n" using assms by (intro floor_unique) simp_all
  then show ?thesis using assms by (simp add: round_half_even_def Let_def)
qed

lemma rhe_tie: "round_half_even (of_int n + 1 / 2) = (if even n then n else n + 1)"
proof -
  have "\<lfloor>of_int n + (1 / 2 :: real)\<rfloor> = n" by (intro floor_unique) simp_all
  then show ?thesis by (simp add: round_half_even_def Let_def)
qed

lemma nearest_eval:
  assumes "2 ^ a \<le> x" "x < 2 ^ Suc a" "a \<le> 52"
  shows "binary64_nearest x = of_int (round_half_even (x * 2 ^ (52 - a))) / 2 ^ (52 - a)"
proof -
  have pos: "0 < x" using assms(1) by (smt (verit) zero_less_power)
  have "(2::real) powr of_int (int a) = 2 ^ a" by (simp add: powr_realpow)
  moreover have "(2::real) powr of_int (int a + 1) = 2 ^ Suc a"
    using powr_realpow [of 2 "Suc a"] by (simp add: add.commute)
  ultimately have "binary64_exponent x = int a"
    using pos assms by (intro exponent_eqI) simp_all
  then have "binary64_ulp x = 2 powr (- of_nat (52 - a))"
    using assms(3) by (simp add: binary64_ulp_def of_nat_diff)
  also have "\<dots> = 1 / 2 ^ (52 - a)"
    by (simp add: powr_minus powr_realpow divide_inverse)
  finally have "binary64_ulp x = 1 / 2 ^ (52 - a)" .
  then show ?thesis using pos by (simp add: binary64_nearest_def)
qed

lemma round_number_eqI:
  assumes "binary64_nearest x = y" "\<bar>y\<bar> < 2 ^ 53"
  shows "round_number x = Finite y"
proof -
  have "(2::real) ^ 53 \<le> 2 ^ 1024" by (rule power_increasing) simp_all
  then have "y < 2 ^ 1024" "- (2 ^ 1024) < y" using assms(2) by linarith+
  then show ?thesis using assms(1) by (simp add: round_number_def not_le [symmetric])
qed

lemma jitter_value:
  "number_mult (Finite (1 - 1 / 2 ^ 52)) (Finite 1000) = Finite (1000 - 1 / 2 ^ 42)"
proof -
  define x :: real where "x = (1 - 1 / 2 ^ 52) * 1000"
  have "binary64_nearest x = of_int (round_half_even (x * 2 ^ (52 - 9))) / 2 ^ (52 - 9)"
    by (rule nearest_eval) (simp_all add: x_def)
  moreover have "x * 2 ^ (52 - 9) = of_int (1000 * 2 ^ 43 - 2) + 3 / 64"
    by (simp add: x_def)
  moreover have "round_half_even (of_int (1000 * 2 ^ 43 - 2) + 3 / 64) = 1000 * 2 ^ 43 - 2"
    by (rule rhe_down) simp_all
  ultimately have "binary64_nearest x = of_int (1000 * 2 ^ 43 - 2) / 2 ^ (52 - 9)"
    by (simp only:)
  then have "binary64_nearest x = 1000 - 1 / 2 ^ 42" by simp
  then have "round_number x = Finite (1000 - 1 / 2 ^ 42)" by (rule round_number_eqI) simp
  then show ?thesis by (simp only: number_mult.simps x_def)
qed

lemma first_delay_value:
  "number_add (Finite 1000) (Finite (1000 - 1 / 2 ^ 42)) = Finite (2000 - 1 / 2 ^ 42)"
proof -
  define x :: real where "x = 1000 + (1000 - 1 / 2 ^ 42)"
  have "binary64_nearest x = of_int (round_half_even (x * 2 ^ (52 - 10))) / 2 ^ (52 - 10)"
    by (rule nearest_eval) (simp_all add: x_def)
  moreover have "x * 2 ^ (52 - 10) = of_int (2000 * 2 ^ 42 - 1)"
    by (simp add: x_def)
  ultimately have "binary64_nearest x = of_int (2000 * 2 ^ 42 - 1) / 2 ^ (52 - 10)"
    by (simp only: rhe_of_int)
  then have "binary64_nearest x = 2000 - 1 / 2 ^ 42" by simp
  then have "round_number x = Finite (2000 - 1 / 2 ^ 42)" by (rule round_number_eqI) simp
  then show ?thesis by (simp only: number_add.simps x_def)
qed

lemma second_delay_value:
  "number_add (Finite 2000) (Finite (1000 - 1 / 2 ^ 42)) = Finite 3000"
proof -
  define x :: real where "x = 2000 + (1000 - 1 / 2 ^ 42)"
  have "binary64_nearest x = of_int (round_half_even (x * 2 ^ (52 - 11))) / 2 ^ (52 - 11)"
    by (rule nearest_eval) (simp_all add: x_def)
  moreover have "x * 2 ^ (52 - 11) = of_int (3000 * 2 ^ 41 - 1) + 1 / 2"
    by (simp add: x_def)
  moreover have "round_half_even (of_int (3000 * 2 ^ 41 - 1) + 1 / 2) = 3000 * 2 ^ 41"
    by (simp only: rhe_tie) simp
  ultimately have "binary64_nearest x = of_int (3000 * 2 ^ 41) / 2 ^ (52 - 11)"
    by (simp only:)
  then have "binary64_nearest x = 3000" by simp
  then have "round_number x = Finite 3000" by (rule round_number_eqI) simp
  then show ?thesis by (simp only: number_add.simps x_def)
qed

lemma base_values:
  "number_mult (Finite 1000) (Math_pow2 0) = Finite 1000"
  "number_mult (Finite 1000) (Math_pow2 1) = Finite 2000"
proof -
  have one: "round_number 1 = Finite 1" using round_number_of_int [of 1] by simp
  have two: "round_number 2 = Finite 2" using round_number_of_int [of 2] by simp
  have a: "round_number 1000 = Finite 1000" using round_number_of_int [of 1000] by simp
  have b: "round_number 2000 = Finite 2000" using round_number_of_int [of 2000] by simp
  show "number_mult (Finite 1000) (Math_pow2 0) = Finite 1000"
    by (simp add: Math_pow2_def one a)
  show "number_mult (Finite 1000) (Math_pow2 1) = Finite 2000"
    by (simp add: Math_pow2_def two b)
qed

lemma random_value_is_double: "is_double (Finite (1 - 1 / 2 ^ 52))"
proof -
  have "binary64_nearest (of_int (2 ^ 52 - 1) * 2 powr of_int (- 52)) = of_int (2 ^ 52 - 1) * 2 powr of_int (- 52)"
    by (rule nearest_representable) simp_all
  moreover have "of_int (2 ^ 52 - 1) * 2 powr of_int (- 52) = (1 - 1 / 2 ^ 52 :: real)"
    by (simp add: powr_minus divide_simps)
  ultimately have "binary64_nearest (1 - 1 / 2 ^ 52) = 1 - 1 / 2 ^ 52" by (simp only:)
  then have "round_number (1 - 1 / 2 ^ 52) = Finite (1 - 1 / 2 ^ 52)" by (rule round_number_eqI) simp
  then show ?thesis by (simp only: is_double.simps)
qed

section \<open>Properties of the retrying call wrapper\<close>

declare callApiWithRetry_loop.simps [simp del]

lemma timeouts_append: "timeouts (xs @ ys) = timeouts xs @ timeouts ys"
  by (induction xs rule: timeouts.induct) simp_all

lemma loop_success:
  assumes "apiCall w = ((t, Inr v), w1)"
  shows "callApiWithRetry_loop random apiCall maxRetries initialDelay attempt elapsed w
           = ((elapsed + t, Inr v), w1)"
  using assms by (subst callApiWithRetry_loop.simps) simp

lemma loop_rethrow:
  assumes "apiCall w = ((t, Inl e), w1)" and "\<not> isRateLimitError e"
  shows "callApiWithRetry_loop random apiCall maxRetries initialDelay attempt elapsed w
           = ((elapsed + t, Inl e), w1)"
  using assms by (subst callApiWithRetry_loop.simps) simp

lemma loop_exhausted:
  assumes "apiCall w = ((t, Inl e), w1)" and "maxRetries \<le> int (Suc attempt)"
  shows "callApiWithRetry_loop random apiCall maxRetries initialDelay attempt elapsed w
           = ((elapsed + t, Inl e), w1)"
  using assms by (subst callApiWithRetry_loop.simps) simp

lemma loop_retry:
  assumes "apiCall w = ((t, Inl e), w1)" and "isRateLimitError e"
    and "int (Suc attempt) < maxRetries"
    and "delay = number_add (number_mult initialDelay (Math_pow2 attempt))
                   (number_mult (Finite (random (draws w1))) (Finite 1000))"
  shows "callApiWithRetry_loop random apiCall maxRetries initialDelay attempt elapsed w
           = callApiWithRetry_loop random apiCall maxRetries initialDelay (Suc attempt)
               (elapsed + t + timer_wait delay)
               (emit (setTimeout delay)
                 (emit (console_warn (Math_round delay) (Suc attempt) maxRetries)
                   (w1\<lparr>draws := Suc (draws w1)\<rparr>)))"
  using assms
  by (subst callApiWithRetry_loop.simps) (simp add: Math_random_def Let_def)

text \<open>
  The loop entered with \<open>attempt\<close> failures behind it, when the operation is rejected
  as rate-limited \<open>m\<close> more times and then fulfilled, \<open>attempt + m + 1\<close> being the cap.
\<close>

lemma loop_retries:
  assumes "int (attempt + m + 1) = maxRetries"
    and "\<forall>k<m. \<exists>t e. fst (op (service_after op k (service w))) = (t, Inl e) \<and> isRateLimitError e"
    and "fst (op (service_after op m (service w))) = (tn, Inr v)"
  shows "\<exists>T w'. callApiWithRetry_loop random (on_service op) maxRetries initialDelay attempt elapsed w
                  = ((T, Inr v), w')
           \<and> service w' = service_after op (Suc m) (service w)
           \<and> draws w' = draws w + m
           \<and> timeouts (trace w') = timeouts (trace w) @
                map (\<lambda>k. number_add (number_mult initialDelay (Math_pow2 (attempt + k)))
                            (number_mult (Finite (random (draws w + k))) (Finite 1000))) [0..<m]"
  using assms
proof (induction m arbitrary: attempt elapsed w)
  case 0
  obtain s1 where op0: "op (service w) = ((tn, Inr v), s1)"
    using "0.prems"(3) by (cases "op (service w)") simp
  then have "on_service op w = ((tn, Inr v), w\<lparr>service := s1\<rparr>)"
    by (simp add: on_service_def)
  then show ?case using op0 by (simp add: loop_success)
next
  case (Suc m)
  from Suc.prems(2) obtain t e where
    f0: "fst (op (service w)) = (t, Inl e)" and rl: "isRateLimitError e"
    by force
  obtain s1 where op0: "op (service w) = ((t, Inl e), s1)"
    using f0 by (cases "op (service w)") simp
  define d where "d = number_add (number_mult initialDelay (Math_pow2 attempt))
                        (number_mult (Finite (random (draws w))) (Finite 1000))"
  let ?w4 = "emit (setTimeout d) (emit (console_warn (Math_round d) (Suc attempt) maxRetries)
               (w\<lparr>service := s1, draws := Suc (draws w)\<rparr>))"
  have call: "on_service op w = ((t, Inl e), w\<lparr>service := s1\<rparr>)"
    using op0 by (simp add: on_service_def)
  have lt: "int (Suc attempt) < maxRetries" using Suc.prems(1) by simp
  have dd: "d = number_add (number_mult initialDelay (Math_pow2 attempt))
                  (number_mult (Finite (random (draws (w\<lparr>service := s1\<rparr>)))) (Finite 1000))"
    by (simp add: d_def)
  have step: "callApiWithRetry_loop random (on_service op) maxRetries initialDelay attempt elapsed w
      = callApiWithRetry_loop random (on_service op) maxRetries initialDelay (Suc attempt)
          (elapsed + t + timer_wait d) ?w4"
    using loop_retry [where apiCall = "on_service op" and random = random and delay = d
        and initialDelay = initialDelay, OF call rl lt dd] by simp
  have sv: "service ?w4 = snd (op (service w))" and dr: "draws ?w4 = Suc (draws w)"
    and tr: "trace ?w4 = trace w @ [console_warn (Math_round d) (Suc attempt) maxRetries, setTimeout d]"
    using op0 by (simp_all add: emit_def)
  have p1: "int (Suc attempt + m + 1) = maxRetries" using Suc.prems(1) by simp
  have p2: "\<forall>k<m. \<exists>t e. fst (op (service_after op k (service ?w4))) = (t, Inl e) \<and> isRateLimitError e"
  proof (intro allI impI)
    fix k assume "k < m"
    then have "Suc k < Suc m" by simp
    with Suc.prems(2) show "\<exists>t e. fst (op (service_after op k (service ?w4))) = (t, Inl e) \<and> isRateLimitError e"
      unfolding sv by (metis service_after.simps(2))
  qed
  have p3: "fst (op (service_after op m (service ?w4))) = (tn, Inr v)"
    using Suc.prems(3) unfolding sv by simp
  from Suc.IH [OF p1 p2 p3, of "elapsed + t + timer_wait d"]
  obtain T w' where
    r: "callApiWithRetry_loop random (on_service op) maxRetries initialDelay (Suc attempt)
          (elapsed + t + timer_wait d) ?w4 = ((T, Inr v), w')"
    and s: "service w' = service_after op (Suc m) (service ?w4)"
    and dw: "draws w' = draws ?w4 + m"
    and ts: "timeouts (trace w') = timeouts (trace ?w4) @
                map (\<lambda>k. number_add (number_mult initialDelay (Math_pow2 (Suc attempt + k)))
                            (number_mult (Finite (random (draws ?w4 + k))) (Finite 1000))) [0..<m]"
    by blast
  have m: "map (\<lambda>k. number_add (number_mult initialDelay (Math_pow2 (attempt + k)))
                       (number_mult (Finite (random (draws w + k))) (Finite 1000))) [0..<Suc m]
         = d # map (\<lambda>k. number_add (number_mult initialDelay (Math_pow2 (Suc attempt + k)))
                       (number_mult (Finite (random (Suc (draws w) + k))) (Finite 1000))) [0..<m]"
    by (simp add: upt_conv_Cons map_Suc_upt [symmetric] d_def del: upt_Suc)
  show ?case
    apply (rule exI [of _ T], rule exI [of _ w'])
    using r s dw ts unfolding step sv dr tr m
    by (simp add: timeouts_append)
qed

text \<open>
  Claim C3, as the code has it. An operation that is rejected with a rate-limit-classified
  failure exactly \<open>maxRetries - 1\<close> times and then fulfilled with \<open>v\<close>: the wrapper is
  fulfilled with \<open>v\<close> itself, the operation has been invoked exactly \<open>maxRetries\<close>
  times (the service is in the state \<open>maxRetries\<close> invocations lead to),
  \<open>maxRetries - 1\<close> timers were set, and the delay of the timer before retry \<open>k\<close> is
  at least \<open>initialDelay * 2 ^ (k - 1)\<close> and at most that plus 1000, the product and
  the sum being those of double precision (and the product not \<open>NaN\<close>). The upper
  bound is not strict: the jitter \<open>Math.random() * 1000\<close> is less than 1000, but the
  sum is rounded and can be the bound itself. The jitter source obeys the contract
  of \<open>Math.random\<close> (a number in \<open>[0, 1)\<close>).
\<close>

theorem callApiWithRetry_rate_limited_then_success:
  assumes "1 \<le> maxRetries"
    and "\<forall>n. 0 \<le> random n \<and> random n < 1"
    and "\<forall>k<nat maxRetries - 1. \<exists>t e.
           fst (op (service_after op k (service w))) = (t, Inl e) \<and> isRateLimitError e"
    and "fst (op (service_after op (nat maxRetries - 1) (service w))) = (tn, Inr v)"
  shows "\<exists>T w' ds.
           callApiWithRetry random (on_service op) maxRetries initialDelay w = ((T, Inr v), w')
         \<and> service w' = service_after op (nat maxRetries) (service w)
         \<and> timeouts (trace w') = timeouts (trace w) @ ds
         \<and> length ds = nat maxRetries - 1
         \<and> (\<forall>k. 1 \<le> k \<and> k < nat maxRetries
                 \<and> number_mult initialDelay (Math_pow2 (k - 1)) \<noteq> NaN \<longrightarrow>
               number_le (number_mult initialDelay (Math_pow2 (k - 1))) (ds ! (k - 1))
             \<and> number_le (ds ! (k - 1))
                 (number_add (number_mult initialDelay (Math_pow2 (k - 1))) (Finite 1000)))"
proof -
  define m where "m = nat maxRetries - 1"
  have cap: "int (0 + m + 1) = maxRetries" and sm: "Suc m = nat maxRetries"
    using assms(1) by (simp_all add: m_def)
  define ds where "ds = map (\<lambda>k. number_add (number_mult initialDelay (Math_pow2 (0 + k)))
                      (number_mult (Finite (random (draws w + k))) (Finite 1000))) [0..<m]"
  from loop_retries [OF cap assms(3) [folded m_def] assms(4) [folded m_def], of random initialDelay 0]
  obtain T w' where
    r: "callApiWithRetry random (on_service op) maxRetries initialDelay w = ((T, Inr v), w')"
    and s: "service w' = service_after op (Suc m) (service w)"
    and ts: "timeouts (trace w') = timeouts (trace w) @ ds"
    unfolding callApiWithRetry_def ds_def by blast
  have bounds: "number_le (number_mult initialDelay (Math_pow2 (k - 1))) (ds ! (k - 1))
      \<and> number_le (ds ! (k - 1))
          (number_add (number_mult initialDelay (Math_pow2 (k - 1))) (Finite 1000))"
    if "1 \<le> k \<and> k < nat maxRetries \<and> number_mult initialDelay (Math_pow2 (k - 1)) \<noteq> NaN" for k
  proof -
    from that have "k - 1 < m" unfolding m_def by arith
    then have nth: "ds ! (k - 1) = number_add (number_mult initialDelay (Math_pow2 (k - 1)))
                      (number_mult (Finite (random (draws w + (k - 1)))) (Finite 1000))"
      by (simp add: ds_def)
    from assms(2) have "0 \<le> random (draws w + (k - 1))" and "random (draws w + (k - 1)) < 1"
      by simp_all
    then show ?thesis
      unfolding nth using that by (intro delay_bounds is_double_number_mult) simp_all
  qed
  have len: "length ds = nat maxRetries - 1"
    by (simp add: m_def ds_def)
  from r s [unfolded sm] ts len bounds show ?thesis
    by blast
qed

theorem callApiWithRetry_rate_limited_then_success_witness:
  "\<exists>T w' ds.
     callApiWithRetry (\<lambda>n. 1 / 2) (on_service replay) 3 (Finite 1000)
       \<lparr>service = [(40, Inl (Error_instance ''429 Too Many Requests'')),
                   (35, Inl (Error_instance ''Quota exceeded'')),
                   (50, Inr (7 :: nat))],
        draws = 0, trace = []\<rparr> = ((T, Inr 7), w')
   \<and> service w' = []
   \<and> timeouts (trace w') = ds
   \<and> length ds = 2
   \<and> number_le (Finite 1000) (ds ! 0) \<and> number_le (ds ! 0) (Finite 2000)
   \<and> number_le (Finite 2000) (ds ! 1) \<and> number_le (ds ! 1) (Finite 3000)"
proof -
  let ?w = "\<lparr>service = [(40 :: real, Inl (Error_instance ''429 Too Many Requests'')),
                   (35, Inl (Error_instance ''Quota exceeded'')),
                   (50, Inr (7 :: nat))],
        draws = 0, trace = []\<rparr>"
  have h1: "(1 :: int) \<le> 3" by simp
  have h2: "\<forall>n :: nat. (0 :: real) \<le> 1 / 2 \<and> (1 :: real) / 2 < 1" by simp
  have h3: "\<forall>k<nat 3 - 1. \<exists>t e.
      fst (replay (service_after replay k (service ?w))) = (t, Inl e) \<and> isRateLimitError e"
    by (simp add: less_Suc_eq numeral_2_eq_2 replay_def toLowerCase_def toLowerCase_char_def)
  have h4: "fst (replay (service_after replay (nat 3 - 1) (service ?w))) = (50, Inr 7)"
    by (simp add: numeral_2_eq_2 replay_def)
  have b0: "number_mult (Finite 1000) (Math_pow2 0) = Finite 1000"
    and b1: "number_mult (Finite 1000) (Math_pow2 1) = Finite 2000"
    by (rule base_values)+
  have b1s: "number_mult (Finite 1000) (Math_pow2 (Suc 0)) = Finite 2000"
    using b1 by simp
  have s0: "round_number 2000 = Finite 2000"
    using round_number_of_int [of 2000] by simp
  have s1: "round_number 3000 = Finite 3000"
    using round_number_of_int [of 3000] by simp
  from callApiWithRetry_rate_limited_then_success [OF h1 h2 h3 h4, of "Finite 1000"]
  obtain T w' ds where
    "callApiWithRetry (\<lambda>n. 1 / 2) (on_service replay) 3 (Finite 1000) ?w = ((T, Inr 7), w')"
    "service w' = service_after replay (nat 3) (service ?w)"
    "timeouts (trace w') = timeouts (trace ?w) @ ds"
    "length ds = nat 3 - 1"
    "\<forall>k. 1 \<le> k \<and> k < nat 3 \<and> number_mult (Finite 1000) (Math_pow2 (k - 1)) \<noteq> NaN \<longrightarrow>
        number_le (number_mult (Finite 1000) (Math_pow2 (k - 1))) (ds ! (k - 1))
      \<and> number_le (ds ! (k - 1))
          (number_add (number_mult (Finite 1000) (Math_pow2 (k - 1))) (Finite 1000))"
    by blast
  moreover from this(5) have "number_le (Finite 1000) (ds ! 0) \<and> number_le (ds ! 0) (Finite 2000)"
    by (rule allE [of _ 1]) (simp add: b0 s0)
  moreover from calculation(5) have "number_le (Finite 2000) (ds ! 1) \<and> number_le (ds ! 1) (Finite 3000)"
    by (rule allE [of _ 2]) (simp add: b1s s1)
  ultimately show ?thesis
    apply (intro exI [of _ T] exI [of _ w'] exI [of _ ds])
    by (simp add: numeral_3_eq_3 replay_def)
qed

text \<open>
  With the default arguments and \<open>Math.random\<close> returning \<open>1 - 1 / 2 ^ 52\<close>, a double
  below 1, at every call: the jitter is \<open>1000 - 1 / 2 ^ 42\<close>, and before the second
  retry the sum \<open>2000 + (1000 - 1 / 2 ^ 42)\<close> lies halfway between the doubles
  \<open>3000 - 1 / 2 ^ 41\<close> and \<open>3000\<close>, so it is rounded to \<open>3000\<close>: the delay is
  \<open>initialDelay * 2 ^ (2 - 1) + 1000\<close> itself, not less.
\<close>

theorem callApiWithRetry_delay_counterexample:
  "timeouts (trace (snd (callApiWithRetry (constant_source (1 - 1 / 2 ^ 52)) (on_service replay) 3
       (Finite 1000)
       \<lparr>service = [(40, Inl (Error_instance ''429 Too Many Requests'')),
                   (35, Inl (Error_instance ''Quota exceeded'')),
                   (50, Inr (7 :: nat))],
        draws = 0, trace = []\<rparr>)))
     = [Finite (2000 - 1 / 2 ^ 42), Finite 3000]
   \<and> is_double (Finite (1 - 1 / 2 ^ 52))
   \<and> (0 :: real) \<le> 1 - 1 / 2 ^ 52 \<and> (1 :: real) - 1 / 2 ^ 52 < 1
   \<and> number_add (number_mult (Finite 1000) (Math_pow2 (2 - 1))) (Finite 1000) = Finite 3000
   \<and> \<not> number_less (Finite 3000) (Finite (1000 * 2 ^ (2 - 1) + 1000))"
proof -
  let ?e1 = "Error_instance ''429 Too Many Requests''"
  let ?e2 = "Error_instance ''Quota exceeded''"
  let ?r = "constant_source (1 - 1 / 2 ^ 52)"
  let ?w = "\<lparr>service = [(40 :: real, Inl ?e1), (35, Inl ?e2), (50, Inr (7 :: nat))],
             draws = 0, trace = []\<rparr>"
  have b0: "number_mult (Finite 1000) (Math_pow2 0) = Finite 1000"
    and b1: "number_mult (Finite 1000) (Math_pow2 1) = Finite 2000"
    by (rule base_values)+
  have b1s: "number_mult (Finite 1000) (Math_pow2 (Suc 0)) = Finite 2000"
    using b1 by simp
  have rl1: "isRateLimitError ?e1" and rl2: "isRateLimitError ?e2"
    by (simp_all add: toLowerCase_def toLowerCase_char_def)
  define d1 where "d1 = Finite (2000 - 1 / 2 ^ 42)"
  define d2 where "d2 = Finite 3000"
  have c1: "on_service replay ?w = ((40, Inl ?e1),
      \<lparr>service = [(35, Inl ?e2), (50, Inr 7)], draws = 0, trace = []\<rparr>)"
    by (simp add: on_service_def replay_def)
  have e1: "d1 = number_add (number_mult (Finite 1000) (Math_pow2 0))
      (number_mult (Finite (?r (draws \<lparr>service = [(35 :: real, Inl ?e2), (50, Inr (7 :: nat))],
          draws = 0, trace = []\<rparr>))) (Finite 1000))"
  proof -
    have "draws \<lparr>service = [(35 :: real, Inl ?e2), (50, Inr (7 :: nat))],
          draws = 0, trace = []\<rparr> = 0" by simp
    then show ?thesis
      by (simp only: d1_def constant_source_def b0 jitter_value first_delay_value)
  qed
  let ?w1 = "\<lparr>service = [(35 :: real, Inl ?e2), (50, Inr (7 :: nat))], draws = Suc 0,
      trace = [console_warn (Math_round d1) (Suc 0) 3, setTimeout d1]\<rparr>"
  have step1: "callApiWithRetry_loop ?r (on_service replay) 3 (Finite 1000) 0 0 ?w
      = callApiWithRetry_loop ?r (on_service replay) 3 (Finite 1000) (Suc 0)
          (0 + 40 + timer_wait d1) ?w1"
    using loop_retry [where apiCall = "on_service replay" and random = "?r" and delay = d1
        and initialDelay = "Finite 1000" and maxRetries = 3 and attempt = 0 and elapsed = 0,
        OF c1 rl1 _ e1]
    by (simp add: emit_def)
  have c2: "on_service replay ?w1 = ((35, Inl ?e2),
      \<lparr>service = [(50, Inr 7)], draws = Suc 0,
        trace = [console_warn (Math_round d1) (Suc 0) 3, setTimeout d1]\<rparr>)"
    by (simp add: on_service_def replay_def)
  have e2: "d2 = number_add (number_mult (Finite 1000) (Math_pow2 (Suc 0)))
      (number_mult (Finite (?r (draws \<lparr>service = [(50 :: real, Inr (7 :: nat))], draws = Suc 0,
        trace = [console_warn (Math_round d1) (Suc 0) 3, setTimeout d1]\<rparr>))) (Finite 1000))"
    by (simp only: d2_def constant_source_def b1s jitter_value second_delay_value)
  let ?w2 = "\<lparr>service = [(50 :: real, Inr (7 :: nat))], draws = Suc (Suc 0),
      trace = [console_warn (Math_round d1) (Suc 0) 3, setTimeout d1,
               console_warn (Math_round d2) (Suc (Suc 0)) 3, setTimeout d2]\<rparr>"
  have step2: "callApiWithRetry_loop ?r (on_service replay) 3 (Finite 1000) (Suc 0)
          (0 + 40 + timer_wait d1) ?w1
      = callApiWithRetry_loop ?r (on_service replay) 3 (Finite 1000) (Suc (Suc 0))
          (0 + 40 + timer_wait d1 + 35 + timer_wait d2) ?w2"
    using loop_retry [where apiCall = "on_service replay" and random = "?r" and delay = d2
        and initialDelay = "Finite 1000" and maxRetries = 3 and attempt = "Suc 0"
        and elapsed = "0 + 40 + timer_wait d1", OF c2 rl2 _ e2]
    by (simp add: emit_def)
  have c3: "on_service replay ?w2 = ((50, Inr 7), ?w2\<lparr>service := []\<rparr>)"
    by (simp add: on_service_def replay_def)
  have step3: "callApiWithRetry_loop ?r (on_service replay) 3 (Finite 1000) (Suc (Suc 0))
          (0 + 40 + timer_wait d1 + 35 + timer_wait d2) ?w2
      = ((0 + 40 + timer_wait d1 + 35 + timer_wait d2 + 50, Inr 7), ?w2\<lparr>service := []\<rparr>)"
    by (rule loop_success [where apiCall = "on_service replay", OF c3])
  have run: "timeouts (trace (snd (callApiWithRetry ?r (on_service replay) 3 (Finite 1000) ?w)))
      = [d1, d2]"
    unfolding callApiWithRetry_def step1 step2 step3 by simp
  have "round_number 3000 = Finite 3000"
    using round_number_of_int [of 3000] by simp
  then have sum: "number_add (number_mult (Finite 1000) (Math_pow2 (2 - 1))) (Finite 1000) = Finite 3000"
    using b1 by simp
  show ?thesis
    using run random_value_is_double sum unfolding d1_def d2_def by simp
qed

text \<open>
  Claim C5. An operation that is rejected with a failure the classifier does not take
  for a rate limit: the wrapper is rejected with that same failure, after the
  operation's own settling time, and leaves the world as the single invocation of the
  operation left it (no second invocation, no timer, no draw of a random number).
\<close>

theorem callApiWithRetry_other_failure:
  assumes "apiCall w = ((t, Inl e), w1)" and "\<not> isRateLimitError e"
  shows "callApiWithRetry random apiCall maxRetries initialDelay w = ((t, Inl e), w1)"
  using assms by (simp add: callApiWithRetry_def loop_rethrow)

theorem callApiWithRetry_other_failure_witness:
  "callApiWithRetry (\<lambda>n. 0) (on_service replay) 3 (Finite 1000)
      \<lparr>service = [(5, Inl (Error_instance ''Permission denied'')), (5, Inr True)],
       draws = 0, trace = []\<rparr>
    = ((5, Inl (Error_instance ''Permission denied'')),
       \<lparr>service = [(5, Inr True)], draws = 0, trace = []\<rparr>)"
  using callApiWithRetry_other_failure
    [of "on_service replay"
        "\<lparr>service = [(5, Inl (Error_instance ''Permission denied'')), (5, Inr True)],
          draws = 0, trace = []\<rparr>"
        5 "Error_instance ''Permission denied''"
        "\<lparr>service = [(5, Inr True)], draws = 0, trace = []\<rparr>" "\<lambda>n. 0" 3 "Finite 1000"]
  by (simp add: on_service_def replay_def toLowerCase_def toLowerCase_char_def)

text \<open>
  Claim C10. A thrown value that is not an \<open>Error\<close> instance is never classified as a
  rate limit, whatever it holds; so when the operation is rejected with such a value
  the wrapper is rejected with it at once, for every \<open>maxRetries\<close> and
  \<open>initialDelay\<close>, the world being as the single invocation left it.
\<close>

theorem callApiWithRetry_non_Error_rejection:
  assumes "apiCall w = ((t, Inl (Non_Error x)), w1)"
  shows "isRateLimitError (Non_Error x) = False
       \<and> callApiWithRetry random apiCall maxRetries initialDelay w = ((t, Inl (Non_Error x)), w1)"
  using assms by (simp add: callApiWithRetry_def loop_rethrow)

theorem callApiWithRetry_non_Error_rejection_witness:
  "isRateLimitError (Non_Error (JString (map of_char ''429 quota rate limit''))) = False
   \<and> callApiWithRetry (\<lambda>n. 0) (on_service replay) 5 (Finite 250)
      \<lparr>service = [(9, Inl (Non_Error (JString (map of_char ''429 quota rate limit'')))),
                  (9, Inr True)],
       draws = 0, trace = []\<rparr>
    = ((9, Inl (Non_Error (JString (map of_char ''429 quota rate limit'')))),
       \<lparr>service = [(9, Inr True)], draws = 0, trace = []\<rparr>)"
  using callApiWithRetry_non_Error_rejection
    [of "on_service replay"
        "\<lparr>service = [(9, Inl (Non_Error (JString (map of_char ''429 quota rate limit'')))),
                  (9, Inr True)],
          draws = 0, trace = []\<rparr>"
        9 "JString (map of_char ''429 quota rate limit'')"
        "\<lparr>service = [(9, Inr True)], draws = 0, trace = []\<rparr>" "\<lambda>n. 0" 5 "Finite 250"]
  by (simp add: on_service_def replay_def)

section \<open>Properties of the batched runner\<close>

lemma start_all_append:
  "start_all (xs @ ys) w =
     (case start_all xs w of (ps, w1) \<Rightarrow> (case start_all ys w1 of (qs, w2) \<Rightarrow> (ps @ qs, w2)))"
  by (induction xs arbitrary: w) (simp_all split: prod.splits)

lemma length_start_all: "start_all fs w = (ps, w') \<Longrightarrow> length ps = length fs"
  by (induction fs arbitrary: w ps) (auto split: prod.splits)

lemma first_rejection_None_iff:
  "first_rejection ps = None \<longleftrightarrow> (\<forall>p\<in>set ps. \<exists>t v. p = (t, Inr v))"
  by (induction ps rule: first_rejection.induct) (auto split: option.splits)

lemma first_rejection_append_None:
  "first_rejection (ps @ qs) = None \<longleftrightarrow> first_rejection ps = None \<and> first_rejection qs = None"
  by (auto simp: first_rejection_None_iff)

lemma first_rejection_Some:
  "first_rejection ps = Some (t, e) \<Longrightarrow>
     (t, Inl e) \<in> set ps \<and> (\<forall>t' e'. (t', Inl e') \<in> set ps \<longrightarrow> t \<le> t')"
proof (induction ps arbitrary: t e rule: first_rejection.induct)
  case 1
  then show ?case by simp
next
  case (2 t0 v ps)
  then show ?case by simp
next
  case (3 t0 e0 ps)
  show ?case
  proof (cases "first_rejection ps")
    case None
    then have "\<forall>p\<in>set ps. \<exists>t v. p = (t, Inr v)"
      by (simp add: first_rejection_None_iff)
    moreover from None "3.prems" have "t = t0" "e = e0" by simp_all
    ultimately show ?thesis by auto
  next
    case (Some r)
    obtain a b where r: "r = (a, b)" by (cases r)
    from "3.IH" [of a b] Some r
    have ih: "(a, Inl b) \<in> set ps" "\<forall>t' e'. (t', Inl e') \<in> set ps \<longrightarrow> a \<le> t'"
      by simp_all
    show ?thesis
    proof (cases "a < t0")
      case True
      with Some r "3.prems" have "t = a" "e = b" by simp_all
      with ih True show ?thesis by auto
    next
      case False
      with Some r "3.prems" have "t = t0" "e = e0" by simp_all
      with ih False show ?thesis by fastforce
    qed
  qed
qed

lemma fulfilled_append: "fulfilled (ps @ qs) = fulfilled ps @ fulfilled qs"
  by (induction ps rule: fulfilled.induct) simp_all

lemma fulfilled_all:
  "first_rejection ps = None \<Longrightarrow> map (\<lambda>v. Inr v) (fulfilled ps) = map snd ps"
  by (induction ps rule: first_rejection.induct) (auto split: option.splits if_splits)

lemma Promise_all_fulfilled:
  "first_rejection ps = None \<Longrightarrow> Promise_all ps = (last_settled ps, Inr (fulfilled ps))"
  by (simp add: Promise_all_def)

lemma Promise_all_rejected:
  "first_rejection ps = Some (t, e) \<Longrightarrow> Promise_all ps = (t, Inl e)"
  by (simp add: Promise_all_def)

lemma loop_all_fulfilled:
  assumes "0 < b" and "start_all (drop i fs) w = (ps, w')" and "first_rejection ps = None"
  shows "\<exists>T. runPromisesInBatches_loop fs b i results el w
              = Some ((T, Inr (results @ fulfilled ps)), w')"
  using assms(2,3)
proof (induction "length fs - i" arbitrary: i results el w ps rule: less_induct)
  case less
  show ?case
  proof (cases "i < length fs")
    case False
    then have "ps = []" "w' = w" using less.prems(1) by simp_all
    with False show ?thesis
      by (subst runPromisesInBatches_loop.simps) simp
  next
    case True
    obtain ps1 w1 where c1: "start_all (take b (drop i fs)) w = (ps1, w1)"
      by (cases "start_all (take b (drop i fs)) w")
    obtain ps2 w2 where c2: "start_all (drop (i + b) fs) w1 = (ps2, w2)"
      by (cases "start_all (drop (i + b) fs) w1")
    have "take b (drop i fs) @ drop (i + b) fs = take b (drop i fs) @ drop b (drop i fs)"
      by (simp add: add.commute)
    then have "drop i fs = take b (drop i fs) @ drop (i + b) fs"
      by (simp only: append_take_drop_id)
    then have "start_all (drop i fs) w = (ps1 @ ps2, w2)"
      using c1 c2 by (metis (no_types, lifting) start_all_append case_prod_conv)
    with less.prems(1) have ps: "ps = ps1 @ ps2" and w': "w2 = w'" by simp_all
    from less.prems(2) have n1: "first_rejection ps1 = None" and n2: "first_rejection ps2 = None"
      by (simp_all add: ps first_rejection_append_None)
    have "length fs - (i + b) < length fs - i" using True assms(1) by simp
    from less.hyps [OF this c2 [unfolded w'] n2, of "results @ fulfilled ps1" "el + last_settled ps1"]
    obtain T where "runPromisesInBatches_loop fs b (i + b) (results @ fulfilled ps1)
        (el + last_settled ps1) w1 = Some ((T, Inr ((results @ fulfilled ps1) @ fulfilled ps2)), w')"
      by blast
    then show ?thesis
      using True c1 n1
      by (subst runPromisesInBatches_loop.simps)
         (simp add: slice_def Promise_all_fulfilled ps fulfilled_append)
  qed
qed

lemma loop_first_rejection:
  assumes "0 < b"
    and "start_all (take (k * b) (drop i fs)) w = (ps0, w0)" and "first_rejection ps0 = None"
    and "i + k * b < length fs"
    and "start_all (take b (drop (i + k * b) fs)) w0 = (ps1, w1)"
    and "first_rejection ps1 = Some (t, e)"
  shows "\<exists>T. runPromisesInBatches_loop fs b i results el w = Some ((T, Inl e), w1)"
  using assms(2-)
proof (induction k arbitrary: i results el w ps0)
  case 0
  then have "w0 = w" by simp
  with 0 show ?case
    by (subst runPromisesInBatches_loop.simps) (simp add: slice_def Promise_all_rejected)
next
  case (Suc k)
  obtain qs1 v1 where c1: "start_all (take b (drop i fs)) w = (qs1, v1)"
    by (cases "start_all (take b (drop i fs)) w")
  obtain qs2 v2 where c2: "start_all (take (k * b) (drop (i + b) fs)) v1 = (qs2, v2)"
    by (cases "start_all (take (k * b) (drop (i + b) fs)) v1")
  have "take (Suc k * b) (drop i fs) = take b (drop i fs) @ take (k * b) (drop (i + b) fs)"
    by (simp add: take_add add.commute)
  then have "start_all (take (Suc k * b) (drop i fs)) w = (qs1 @ qs2, v2)"
    using c1 c2 by (metis (no_types, lifting) start_all_append case_prod_conv)
  with Suc.prems(1) have ps0: "ps0 = qs1 @ qs2" and w0: "v2 = w0" by simp_all
  from Suc.prems(2) have n1: "first_rejection qs1 = None" and n2: "first_rejection qs2 = None"
    by (simp_all add: ps0 first_rejection_append_None)
  have lt: "i + b + k * b < length fs" and i: "i < length fs"
    using Suc.prems(3) by simp_all
  have c3: "start_all (take b (drop (i + b + k * b) fs)) w0 = (ps1, w1)"
    using Suc.prems(4) by (simp add: add.assoc)
  from Suc.IH [OF c2 [unfolded w0] n2 lt c3 Suc.prems(5), of "results @ fulfilled qs1" "el + last_settled qs1"]
  obtain T where "runPromisesInBatches_loop fs b (i + b) (results @ fulfilled qs1)
      (el + last_settled qs1) v1 = Some ((T, Inl e), w1)"
    by blast
  then show ?case
    using i c1 n1
    by (subst runPromisesInBatches_loop.simps) (simp add: slice_def Promise_all_fulfilled)
qed

lemma start_all_take_Suc:
  assumes "i < length fs"
  shows "start_all (take (Suc i) fs) w =
           (case start_all (take i fs) w of (ps, w1) \<Rightarrow>
              (case (fs ! i) w1 of (p, w2) \<Rightarrow> (ps @ [p], w2)))"
proof -
  have "take (Suc i) fs = take i fs @ [fs ! i]"
    using assms by (simp add: take_Suc_conv_app_nth)
  then show ?thesis
    by (simp add: start_all_append split: prod.splits)
qed

lemma start_all_take:
  assumes "start_all fs w = (ps, w')"
  shows "fst (start_all (take i fs) w) = take i ps"
proof -
  obtain qs w1 where a: "start_all (take i fs) w = (qs, w1)"
    by (cases "start_all (take i fs) w")
  obtain rs w2 where b: "start_all (drop i fs) w1 = (rs, w2)"
    by (cases "start_all (drop i fs) w1")
  have "start_all fs w = (qs @ rs, w2)"
    using a b start_all_append [of "take i fs" "drop i fs" w] by simp
  with assms have ps: "ps = qs @ rs" by simp
  have lq: "length qs = min (length fs) i"
    using length_start_all [OF a] by simp
  have lr: "length rs = length fs - i"
    using length_start_all [OF b] by simp
  show ?thesis
  proof (cases "i \<le> length fs")
    case True
    with lq have "length qs = i" by simp
    then show ?thesis using a ps by simp
  next
    case False
    with lr have "rs = []" by simp
    moreover from False lq have "length qs \<le> i" by simp
    ultimately show ?thesis using a ps by simp
  qed
qed

lemma start_all_nth:
  assumes "start_all fs w = (ps, w')" and "i < length fs"
  shows "ps ! i = fst ((fs ! i) (snd (start_all (take i fs) w)))"
proof -
  have "fst (start_all (take (Suc i) fs) w) = take (Suc i) ps"
    using assms(1) by (rule start_all_take)
  moreover have "fst (start_all (take (Suc i) fs) w)
      = fst (start_all (take i fs) w) @ [fst ((fs ! i) (snd (start_all (take i fs) w)))]"
    using assms(2) by (simp add: start_all_take_Suc split: prod.splits)
  moreover have "fst (start_all (take i fs) w) = take i ps"
    using assms(1) by (rule start_all_take)
  moreover have "i < length ps"
    using assms length_start_all by fastforce
  ultimately show ?thesis
    by (simp add: take_Suc_conv_app_nth)
qed

text \<open>
  Claim C4. For a batch size of at least 1, when every deferred call, started in its
  turn, returns a promise that is fulfilled (after whatever time), the runner is
  fulfilled with a list as long as the list of deferred calls, whose element at each
  index is the value of the promise of the deferred call at that index; the world is
  the one that starting every deferred call once, in order, leads to.
\<close>

theorem runPromisesInBatches_all_fulfilled:
  assumes "1 \<le> batchSize"
    and "\<forall>i<length promiseFactories. \<exists>t v.
           fst ((promiseFactories ! i) (snd (start_all (take i promiseFactories) w))) = (t, Inr v)"
  shows "\<exists>T results.
           runPromisesInBatches promiseFactories batchSize w
             = Some ((T, Inr results), snd (start_all promiseFactories w))
         \<and> length results = length promiseFactories
         \<and> (\<forall>i<length promiseFactories. \<exists>t.
               fst ((promiseFactories ! i) (snd (start_all (take i promiseFactories) w)))
                 = (t, Inr (results ! i)))"
proof -
  obtain ps w' where st: "start_all promiseFactories w = (ps, w')"
    by (cases "start_all promiseFactories w")
  have len: "length ps = length promiseFactories"
    using st by (rule length_start_all)
  have nth: "ps ! i = fst ((promiseFactories ! i) (snd (start_all (take i promiseFactories) w)))"
    if "i < length promiseFactories" for i
    using st that by (rule start_all_nth)
  have "\<forall>p\<in>set ps. \<exists>t v. p = (t, Inr v)"
    unfolding all_set_conv_all_nth len using assms(2) nth by simp
  then have none: "first_rejection ps = None"
    by (simp add: first_rejection_None_iff)
  have "0 < batchSize" using assms(1) by simp
  from loop_all_fulfilled [OF this, of 0 promiseFactories w ps w' "[]" 0] st none
  obtain T where run: "runPromisesInBatches promiseFactories batchSize w
      = Some ((T, Inr (fulfilled ps)), w')"
    by (auto simp: runPromisesInBatches_def)
  have vals: "map (\<lambda>v. Inr v) (fulfilled ps) = map snd ps"
    using none by (rule fulfilled_all)
  then have flen: "length (fulfilled ps) = length promiseFactories"
    using len by (metis length_map)
  have "\<exists>t. fst ((promiseFactories ! i) (snd (start_all (take i promiseFactories) w)))
        = (t, Inr (fulfilled ps ! i))" if i: "i < length promiseFactories" for i
  proof -
    have "snd (ps ! i) = map snd ps ! i" using i len by simp
    also have "\<dots> = Inr (fulfilled ps ! i)" using i flen by (simp add: vals [symmetric])
    finally show ?thesis using nth [OF i] by (metis prod.collapse)
  qed
  with run flen st show ?thesis by auto
qed

theorem runPromisesInBatches_all_fulfilled_witness:
  "\<exists>T results.
     runPromisesInBatches
       [settle_marked ''a'' (30, Inr (1 :: nat)), settle_marked ''b'' (10, Inr 2),
        settle_marked ''c'' (20, Inr 3)] 2 []
       = Some ((T, Inr results), [''a'', ''b'', ''c''])
   \<and> length results = 3 \<and> results ! 0 = 1 \<and> results ! 1 = 2 \<and> results ! 2 = 3"
proof -
  let ?fs = "[settle_marked ''a'' (30 :: real, Inr (1 :: nat)), settle_marked ''b'' (10, Inr 2),
              settle_marked ''c'' (20, Inr 3)]"
  have h1: "(1 :: nat) \<le> 2" by simp
  have h2: "\<forall>i<length ?fs. \<exists>t v. fst ((?fs ! i) (snd (start_all (take i ?fs) []))) = (t, Inr v)"
    by (simp add: less_Suc_eq numeral_3_eq_3 settle_marked_def)
  from runPromisesInBatches_all_fulfilled [OF h1 h2]
  obtain T results where
    r: "runPromisesInBatches ?fs 2 [] = Some ((T, Inr results), snd (start_all ?fs []))"
    and l: "length results = length ?fs"
    and n: "\<forall>i<length ?fs. \<exists>t. fst ((?fs ! i) (snd (start_all (take i ?fs) []))) = (t, Inr (results ! i))"
    by blast
  from n have "\<exists>t. fst ((?fs ! 0) (snd (start_all (take 0 ?fs) []))) = (t, Inr (results ! 0))"
    by (rule allE [of _ 0]) simp
  then have n0: "results ! 0 = 1" by (simp add: settle_marked_def)
  from n have "\<exists>t. fst ((?fs ! 1) (snd (start_all (take 1 ?fs) []))) = (t, Inr (results ! 1))"
    by (rule allE [of _ 1]) simp
  then have n1: "results ! 1 = 2" by (simp add: settle_marked_def)
  from n have "\<exists>t. fst ((?fs ! 2) (snd (start_all (take 2 ?fs) []))) = (t, Inr (results ! 2))"
    by (rule allE [of _ 2]) simp
  then have n2: "results ! 2 = 3" by (simp add: settle_marked_def numeral_2_eq_2)
  from r l n0 n1 n2 show ?thesis
    by (auto simp: settle_marked_def)
qed

text \<open>
  Claim C6, as the code has it. For a batch size of at least 1, let chunk \<open>k\<close> be the
  first chunk in which a deferred call returns a promise that is rejected (every
  promise of the chunks before it is fulfilled). Then the runner is rejected, with the
  reason \<open>e\<close> of the rejection that comes first in time among the promises of chunk
  \<open>k\<close>; the outcome carries no results; and the world is the one that starting the
  deferred calls of chunks \<open>0\<close> to \<open>k\<close> leads to: no deferred call of a later chunk
  has been started.
\<close>

theorem runPromisesInBatches_first_rejection:
  assumes "1 \<le> batchSize"
    and "k * batchSize < length promiseFactories"
    and "start_all (take (k * batchSize) promiseFactories) w = (ps0, w0)"
    and "\<forall>p\<in>set ps0. \<exists>t v. p = (t, Inr v)"
    and "start_all (slice (k * batchSize) (k * batchSize + batchSize) promiseFactories) w0 = (ps1, w1)"
    and "first_rejection ps1 = Some (t, e)"
  shows "(t, Inl e) \<in> set ps1
       \<and> (\<forall>t' e'. (t', Inl e') \<in> set ps1 \<longrightarrow> t \<le> t')
       \<and> (\<exists>T. runPromisesInBatches promiseFactories batchSize w = Some ((T, Inl e), w1))
       \<and> snd (start_all (take (Suc k * batchSize) promiseFactories) w) = w1"
proof -
  have b: "0 < batchSize" using assms(1) by simp
  have none: "first_rejection ps0 = None"
    using assms(4) by (simp add: first_rejection_None_iff)
  have c0: "start_all (take (k * batchSize) (drop 0 promiseFactories)) w = (ps0, w0)"
    using assms(3) by simp
  have c1: "start_all (take batchSize (drop (0 + k * batchSize) promiseFactories)) w0 = (ps1, w1)"
    using assms(5) by (simp add: slice_def)
  have lt: "0 + k * batchSize < length promiseFactories"
    using assms(2) by simp
  from loop_first_rejection [OF b c0 none lt c1 assms(6), of "[]" 0]
  have run: "\<exists>T. runPromisesInBatches promiseFactories batchSize w = Some ((T, Inl e), w1)"
    by (simp add: runPromisesInBatches_def)
  have "Suc k * batchSize = k * batchSize + batchSize"
    by simp
  then have "take (Suc k * batchSize) promiseFactories
      = take (k * batchSize) promiseFactories
          @ take batchSize (drop (k * batchSize) promiseFactories)"
    by (simp only: take_add)
  then have "start_all (take (Suc k * batchSize) promiseFactories) w = (ps0 @ ps1, w1)"
    using assms(3) c1 by (simp add: start_all_append)
  with run first_rejection_Some [OF assms(6)] show ?thesis by simp
qed

theorem runPromisesInBatches_first_rejection_witness:
  "\<exists>T. runPromisesInBatches
       [settle_marked ''a'' (30, Inr (1 :: nat)), settle_marked ''b'' (10, Inr 2),
        settle_marked ''c'' (25, Inl (Error_instance ''image service down'')),
        settle_marked ''d'' (5, Inr 4),
        settle_marked ''e'' (1, Inr 5)] 2 []
       = Some ((T, Inl (Error_instance ''image service down'')), [''a'', ''b'', ''c'', ''d''])"
proof -
  let ?fs = "[settle_marked ''a'' (30 :: real, Inr (1 :: nat)), settle_marked ''b'' (10, Inr 2),
        settle_marked ''c'' (25, Inl (Error_instance ''image service down'')),
        settle_marked ''d'' (5, Inr 4),
        settle_marked ''e'' (1, Inr 5)]"
  have h1: "(1 :: nat) \<le> 2" by simp
  have h2: "1 * 2 < length ?fs" by simp
  have h3: "start_all (take (1 * 2) ?fs) [] = ([(30, Inr 1), (10, Inr 2)], [''a'', ''b''])"
    by (simp add: settle_marked_def)
  have h4: "\<forall>p\<in>set [(30 :: real, Inr (1 :: nat)), (10, Inr 2)]. \<exists>t v. p = (t, Inr v)"
    by simp
  have h5: "start_all (slice (1 * 2) (1 * 2 + 2) ?fs) [''a'', ''b'']
      = ([(25, Inl (Error_instance ''image service down'')), (5, Inr 4)], [''a'', ''b'', ''c'', ''d''])"
    by (simp add: slice_def settle_marked_def)
  have h6: "first_rejection [(25 :: real, Inl (Error_instance ''image service down'')), (5, Inr (4 :: nat))]
      = Some (25, Error_instance ''image service down'')"
    by simp
  from runPromisesInBatches_first_rejection [OF h1 h2 h3 h4 h5 h6]
  show ?thesis by blast
qed

text \<open>
  Claim C6 as it is stated fails where two deferred calls of one chunk are rejected:
  the first deferred call is rejected with \<open>A\<close>, after 5 ms, yet the runner is rejected
  with \<open>B\<close>, the reason of the second, which came after 1 ms.
\<close>

theorem runPromisesInBatches_rejection_counterexample:
  "fst (settle (5, Inl (Error_instance ''A'')) ()) = (5, Inl (Error_instance ''A''))
   \<and> runPromisesInBatches
       [settle (5, Inl (Error_instance ''A'')), settle (1, Inl (Error_instance ''B''))] 2 ()
       = Some ((1, Inl (Error_instance ''B'')), ())
   \<and> Error_instance ''A'' \<noteq> Error_instance ''B''"
  by (simp add: runPromisesInBatches_def runPromisesInBatches_loop.simps slice_def
      Promise_all_def settle_def)

lemma start_all_preserves:
  assumes "\<And>f v q v1. f \<in> set fs \<Longrightarrow> R v \<Longrightarrow> f v = (q, v1) \<Longrightarrow> R v1"
    and "R w" and "start_all fs w = (ps, w')"
  shows "R w'"
  using assms
proof (induction fs arbitrary: w ps)
  case Nil
  then show ?case by simp
next
  case (Cons f fs)
  obtain q v1 where f: "f w = (q, v1)" by (cases "f w")
  obtain qs v2 where r: "start_all fs v1 = (qs, v2)" by (cases "start_all fs v1")
  from Cons.prems(3) f r have w': "w' = v2" by simp
  have r1: "R v1" using Cons.prems(1) [of f w q v1] Cons.prems(2) f by simp
  have step: "R u1" if "g \<in> set fs" "R u" "g u = (q', u1)" for g u q' u1
    using Cons.prems(1) [of g u q' u1] that by simp
  show ?case using step r1 r [folded w'] by (rule Cons.IH)
qed

lemma batch_loop_preserves:
  assumes b: "0 < b"
    and step: "\<And>f v q v1. f \<in> set fs \<Longrightarrow> R v \<Longrightarrow> f v = (q, v1) \<Longrightarrow> R v1"
    and "R w"
  shows "\<exists>p w'. runPromisesInBatches_loop fs b i results el w = Some (p, w') \<and> R w'"
  using assms(3)
proof (induction "length fs - i" arbitrary: i results el w rule: less_induct)
  case less
  show ?case
  proof (cases "i < length fs")
    case False
    with less.prems show ?thesis
      by (subst runPromisesInBatches_loop.simps) simp
  next
    case True
    obtain ps w1 where c1: "start_all (slice i (i + b) fs) w = (ps, w1)"
      by (cases "start_all (slice i (i + b) fs) w")
    have sub: "set (slice i (i + b) fs) \<subseteq> set fs"
      unfolding slice_def by (meson set_take_subset set_drop_subset subset_trans)
    have r1: "R w1"
      using start_all_preserves [where R = R, OF _ less.prems c1] step sub by blast
    obtain t r where pa: "Promise_all ps = (t, r)" by (cases "Promise_all ps")
    show ?thesis
    proof (cases r)
      case (Inl e)
      with True c1 pa r1 show ?thesis
        by (subst runPromisesInBatches_loop.simps) simp
    next
      case (Inr vs)
      have "length fs - (i + b) < length fs - i" using True b by simp
      from less.hyps [OF this r1, of "results @ vs" "el + t"]
      show ?thesis
        using True c1 pa Inr by (subst runPromisesInBatches_loop.simps) simp
    qed
  qed
qed

lemma batch_loop_fulfilled:
  assumes "0 < b"
    and "runPromisesInBatches_loop fs b i results el w = Some ((T, Inr rs), w')"
  shows "\<exists>ps. start_all (drop i fs) w = (ps, w') \<and> first_rejection ps = None
           \<and> rs = results @ fulfilled ps"
  using assms(2)
proof (induction "length fs - i" arbitrary: i results el w rule: less_induct)
  case less
  show ?case
  proof (cases "i < length fs")
    case False
    with less.prems show ?thesis
      by (subst (asm) runPromisesInBatches_loop.simps) simp
  next
    case True
    obtain ps1 w1 where c1: "start_all (take b (drop i fs)) w = (ps1, w1)"
      by (cases "start_all (take b (drop i fs)) w")
    obtain t r where pa: "Promise_all ps1 = (t, r)" by (cases "Promise_all ps1")
    show ?thesis
    proof (cases r)
      case (Inl e)
      with True c1 pa less.prems show ?thesis
        by (subst (asm) runPromisesInBatches_loop.simps) (simp add: slice_def)
    next
      case (Inr vs)
      have n1: "first_rejection ps1 = None" and vs: "vs = fulfilled ps1"
        using pa Inr by (auto simp: Promise_all_def split: option.splits)
      have rest: "runPromisesInBatches_loop fs b (i + b) (results @ vs) (el + t) w1
          = Some ((T, Inr rs), w')"
        using True c1 pa Inr less.prems
        by (subst (asm) runPromisesInBatches_loop.simps) (simp add: slice_def)
      have "length fs - (i + b) < length fs - i" using True assms(1) by simp
      from less.hyps [OF this rest]
      obtain ps2 where c2: "start_all (drop (i + b) fs) w1 = (ps2, w')"
        and n2: "first_rejection ps2 = None" and rs: "rs = (results @ vs) @ fulfilled ps2"
        by blast
      have "take b (drop i fs) @ drop (i + b) fs = take b (drop i fs) @ drop b (drop i fs)"
        by (simp add: add.commute)
      then have "drop i fs = take b (drop i fs) @ drop (i + b) fs"
        by (simp only: append_take_drop_id)
      then have "start_all (drop i fs) w = (ps1 @ ps2, w')"
        using c1 c2 by (metis (no_types, lifting) start_all_append case_prod_conv)
      moreover have "first_rejection (ps1 @ ps2) = None"
        using n1 n2 by (simp add: first_rejection_append_None)
      moreover have "rs = results @ fulfilled (ps1 @ ps2)"
        using rs vs by (simp add: fulfilled_append)
      ultimately show ?thesis by blast
    qed
  qed
qed

section \<open>Properties of the orchestrator\<close>

lemma trace_emit [simp]: "trace (emit ev w) = trace w @ [ev]"
  and service_emit [simp]: "service (emit ev w) = service w"
  and draws_emit [simp]: "draws (emit ev w) = draws w"
  by (simp_all add: emit_def)

text \<open>What the wrapper adds to the trace, beyond what the operation adds, passes every
  predicate that the warnings and the timers pass.\<close>

lemma loop_extends:
  assumes api: "\<And>w p w1. apiCall w = (p, w1) \<Longrightarrow> \<exists>evs. trace w1 = trace w @ evs \<and> list_all A evs"
    and warn: "\<And>r a m. A (console_warn r a m)" and timer: "\<And>d. A (setTimeout d)"
    and run: "callApiWithRetry_loop rnd apiCall maxRetries initialDelay attempt elapsed w = (p, w')"
  shows "\<exists>evs. trace w' = trace w @ evs \<and> list_all A evs"
  using run
proof (induction "nat (maxRetries - int attempt)" arbitrary: attempt elapsed w rule: less_induct)
  case less
  obtain t r w1 where call: "apiCall w = ((t, r), w1)"
    by (cases "apiCall w") auto
  from api [OF call] obtain evs1 where
    e1: "trace w1 = trace w @ evs1" and a1: "list_all A evs1" by blast
  show ?case
  proof (cases r)
    case (Inr v)
    with call less.prems have "w' = w1" by (simp add: loop_success)
    with e1 a1 show ?thesis by blast
  next
    case (Inl e)
    show ?thesis
    proof (cases "maxRetries \<le> int (Suc attempt) \<or> \<not> isRateLimitError e")
      case True
      with call Inl less.prems have "w' = w1"
        by (auto simp: loop_exhausted loop_rethrow)
      with e1 a1 show ?thesis by blast
    next
      case False
      let ?d = "number_add (number_mult initialDelay (Math_pow2 attempt))
                  (number_mult (Finite (rnd (draws w1))) (Finite 1000))"
      let ?w4 = "emit (setTimeout ?d) (emit (console_warn (Math_round ?d) (Suc attempt) maxRetries)
                   (w1\<lparr>draws := Suc (draws w1)\<rparr>))"
      from False have rl: "isRateLimitError e" and lt: "int (Suc attempt) < maxRetries"
        by simp_all
      have "callApiWithRetry_loop rnd apiCall maxRetries initialDelay (Suc attempt)
              (elapsed + t + timer_wait ?d) ?w4 = (p, w')"
        using loop_retry [where apiCall = apiCall and random = rnd and delay = "?d"
            and initialDelay = initialDelay, OF call [unfolded Inl] rl lt refl] less.prems
        by simp
      moreover have "nat (maxRetries - int (Suc attempt)) < nat (maxRetries - int attempt)"
        using lt by simp
      ultimately obtain evs2 where
        e2: "trace w' = trace ?w4 @ evs2" and a2: "list_all A evs2"
        using less.hyps by blast
      have "trace w' = trace w @ (evs1 @ [console_warn (Math_round ?d) (Suc attempt) maxRetries,
              setTimeout ?d] @ evs2)"
        using e1 e2 by simp
      moreover have "list_all A (evs1 @ [console_warn (Math_round ?d) (Suc attempt) maxRetries,
              setTimeout ?d] @ evs2)"
        using a1 a2 warn timer by simp
      ultimately show ?thesis by blast
    qed
  qed
qed

lemma ai_generateImages_trace:
  "ai_generateImages ai params w = (p, w1) \<Longrightarrow> trace w1 = trace w @ [generateImages_call params]"
  by (auto simp: ai_generateImages_def split: prod.splits)

lemma ai_generateContent_trace:
  "ai_generateContent ai params w = (p, w1) \<Longrightarrow> trace w1 = trace w @ [generateContent_call params]"
  by (auto simp: ai_generateContent_def split: prod.splits)

lemma retry_images_trace:
  assumes "callApiWithRetry_default rnd (ai_generateImages ai params) w = (p, w')"
  shows "\<exists>evs. trace w' = trace w @ evs \<and> list_all (only_images params) evs"
proof (rule loop_extends [where apiCall = "ai_generateImages ai params"])
  show "\<exists>evs. trace w1 = trace v @ evs \<and> list_all (only_images params) evs"
    if "ai_generateImages ai params v = (q, w1)" for v q w1
    using ai_generateImages_trace [OF that] by (simp add: only_images_def)
  show "callApiWithRetry_loop rnd (ai_generateImages ai params) 3 (Finite 1000) 0 0 w = (p, w')"
    using assms by (simp add: callApiWithRetry_default_def callApiWithRetry_def)
qed (simp_all add: only_images_def)

lemma retry_content_trace:
  assumes "callApiWithRetry_default rnd (ai_generateContent ai params) w = (p, w')"
  shows "\<exists>evs. trace w' = trace w @ generateContent_call params # evs
           \<and> list_all (only_content params) evs"
proof -
  have run: "callApiWithRetry_loop rnd (ai_generateContent ai params) 3 (Finite 1000) 0 0 w = (p, w')"
    using assms by (simp add: callApiWithRetry_default_def callApiWithRetry_def)
  have api: "\<exists>evs. trace w1 = trace v @ evs \<and> list_all (only_content params) evs"
    if "ai_generateContent ai params v = (q, w1)" for v q w1
    using ai_generateContent_trace [OF that] by (simp add: only_content_def)
  obtain t r w1 where call: "ai_generateContent ai params w = ((t, r), w1)"
    by (cases "ai_generateContent ai params w") auto
  have tr1: "trace w1 = trace w @ [generateContent_call params]"
    using call by (rule ai_generateContent_trace)
  show ?thesis
  proof (cases r)
    case (Inr v)
    with call run have "w' = w1" by (simp add: loop_success)
    with tr1 show ?thesis by simp
  next
    case (Inl e)
    show ?thesis
    proof (cases "(3 :: int) \<le> int (Suc 0) \<or> \<not> isRateLimitError e")
      case True
      with call Inl run have "w' = w1"
        by (auto simp: loop_exhausted loop_rethrow)
      with tr1 show ?thesis by simp
    next
      case False
      let ?d = "number_add (number_mult (Finite 1000) (Math_pow2 0))
                  (number_mult (Finite (rnd (draws w1))) (Finite 1000))"
      let ?w4 = "emit (setTimeout ?d) (emit (console_warn (Math_round ?d) (Suc 0) 3)
                   (w1\<lparr>draws := Suc (draws w1)\<rparr>))"
      from False have rl: "isRateLimitError e" and lt: "int (Suc 0) < 3"
        by simp_all
      have rest: "callApiWithRetry_loop rnd (ai_generateContent ai params) 3 (Finite 1000) (Suc 0)
              (0 + t + timer_wait ?d) ?w4 = (p, w')"
        using loop_retry [where apiCall = "ai_generateContent ai params" and random = rnd
            and delay = "?d" and initialDelay = "Finite 1000", OF call [unfolded Inl] rl lt refl] run
        by simp
      have "\<exists>evs. trace w' = trace ?w4 @ evs \<and> list_all (only_content params) evs"
      proof (rule loop_extends [where apiCall = "ai_generateContent ai params"])
        show "\<exists>evs. trace w1 = trace v @ evs \<and> list_all (only_content params) evs"
          if "ai_generateContent ai params v = (q, w1)" for v q w1
          using that by (rule api)
        show "callApiWithRetry_loop rnd (ai_generateContent ai params) 3 (Finite 1000) (Suc 0)
              (0 + t + timer_wait ?d) ?w4 = (p, w')"
          by (rule rest)
      qed (simp_all add: only_content_def)
      then obtain evs2 where e2: "trace w' = trace ?w4 @ evs2"
        and a2: "list_all (only_content params) evs2"
        by blast
      have "trace w' = trace w @ generateContent_call params #
              ([console_warn (Math_round ?d) (Suc 0) 3, setTimeout ?d] @ evs2)"
        using tr1 e2 by simp
      moreover have "list_all (only_content params)
              ([console_warn (Math_round ?d) (Suc 0) 3, setTimeout ?d] @ evs2)"
        using a2 by (simp add: only_content_def)
      ultimately show ?thesis by blast
    qed
  qed
qed

lemma only_images_request:
  assumes "params \<in> set (map (view_request d) VIEWS @ [sketch_request d])"
    and "list_all (only_images params) evs"
  shows "list_all (request_of_cycle d) evs"
  using assms(2)
  by (rule list.pred_mono_strong)
     (use assms(1) in \<open>auto simp: only_images_def request_of_cycle_def split: event.splits\<close>)

lemma only_content_request:
  assumes "list_all (only_content (cuttingList_request d)) evs"
  shows "list_all (request_of_cycle d) evs"
  using assms
  by (rule list.pred_mono_strong)
     (auto simp: only_content_def request_of_cycle_def split: event.splits)

lemma cycle_extends_refl: "cycle_extends d w w"
  by (simp add: cycle_extends_def)

lemma cycle_extends_step:
  assumes "cycle_extends d w0 w" and "trace w1 = trace w @ evs" and "list_all (request_of_cycle d) evs"
  shows "cycle_extends d w0 w1"
  using assms unfolding cycle_extends_def by auto

lemma view_factory_extends:
  assumes "view \<in> set VIEWS" and "cycle_extends d w0 w" and "view_factory ai d view w = (p, w1)"
  shows "cycle_extends d w0 w1"
proof -
  obtain q where "callApiWithRetry_default (random_source ai)
      (ai_generateImages ai (view_request d view)) w = (q, w1)"
    using assms(3) by (auto simp: view_factory_def split: prod.splits)
  from retry_images_trace [OF this] obtain evs where
    "trace w1 = trace w @ evs" "list_all (only_images (view_request d view)) evs" by blast
  moreover have "view_request d view \<in> set (map (view_request d) VIEWS @ [sketch_request d])"
    using assms(1) by simp
  ultimately show ?thesis
    using assms(2) only_images_request cycle_extends_step by blast
qed

lemma sketch_factory_extends:
  assumes "cycle_extends d w0 w" and "sketch_factory ai d w = (p, w1)"
  shows "cycle_extends d w0 w1"
proof -
  obtain q where "callApiWithRetry_default (random_source ai)
      (ai_generateImages ai (sketch_request d)) w = (q, w1)"
    using assms(2) by (auto simp: sketch_factory_def split: prod.splits)
  from retry_images_trace [OF this] obtain evs where
    "trace w1 = trace w @ evs" "list_all (only_images (sketch_request d)) evs" by blast
  moreover have "sketch_request d \<in> set (map (view_request d) VIEWS @ [sketch_request d])"
    by simp
  ultimately show ?thesis
    using assms(1) only_images_request cycle_extends_step by blast
qed

lemma imagePromiseFactories_extends:
  assumes "f \<in> set (imagePromiseFactories ai d)" and "cycle_extends d w0 w" and "f w = (p, w1)"
  shows "cycle_extends d w0 w1"
proof -
  from assms(1) consider (view) view where "view \<in> set VIEWS" "f = view_factory ai d view"
    | (sketch) "f = sketch_factory ai d"
    by (auto simp: imagePromiseFactories_def)
  then show ?thesis
  proof cases
    case view
    from view(1) assms(2) assms(3) [unfolded view(2)] show ?thesis
      by (rule view_factory_extends)
  next
    case sketch
    from assms(2) assms(3) [unfolded sketch] show ?thesis
      by (rule sketch_factory_extends)
  qed
qed

lemma image_batch_total:
  assumes "cycle_extends d w0 w"
  shows "\<exists>p w'. runPromisesInBatches (imagePromiseFactories ai d) 3 w = Some (p, w')
           \<and> cycle_extends d w0 w'"
  unfolding runPromisesInBatches_def
proof (rule batch_loop_preserves [where R = "cycle_extends d w0"])
  show "cycle_extends d w0 v1"
    if "f \<in> set (imagePromiseFactories ai d)" "cycle_extends d w0 v" "f v = (q, v1)" for f v q v1
    using that by (rule imagePromiseFactories_extends)
qed (use assms in simp_all)

lemma cuttingList_of_extends:
  assumes "cuttingList_of response w = (v, w1)"
  shows "\<exists>evs. trace w1 = trace w @ evs \<and> list_all (request_of_cycle d) evs"
  using assms
  by (auto simp: cuttingList_of_def Let_def request_of_cycle_def split: if_splits sum.splits)

lemma cuttingList_call_extends:
  assumes "callApiWithRetry_default (random_source ai)
      (ai_generateContent ai (cuttingList_request d)) w = (p, w1)"
  shows "cycle_extends d w w1"
proof -
  from retry_content_trace [OF assms] obtain evs where
    t: "trace w1 = trace w @ generateContent_call (cuttingList_request d) # evs"
    and a: "list_all (only_content (cuttingList_request d)) evs" by blast
  have "list_all (request_of_cycle d) (generateContent_call (cuttingList_request d) # evs)"
    using only_content_request [OF a] by (simp add: request_of_cycle_def)
  with t show ?thesis unfolding cycle_extends_def by blast
qed

lemma generateAssets_unfold:
  assumes "callApiWithRetry_default (random_source ai)
      (ai_generateContent ai (cuttingList_request d)) w = (cp, w1)"
    and "runPromisesInBatches (imagePromiseFactories ai d) 3 w1 = Some (ip, w2)"
  shows "generateAssetsFromDescription ai d w =
     (case Promise_all2 ip cp of
        (t, Inl e) \<Rightarrow> Some ((t, Inl e), w2)
      | (t, Inr (allImageResults, cuttingListResponse)) \<Rightarrow>
          Some ((t, Inr \<lparr>imageViews = (if imageViews_of allImageResults \<noteq> []
                                       then Some (imageViews_of allImageResults) else None),
                          sketchUrl = sketchUrl_of allImageResults,
                          cuttingList = fst (cuttingList_of cuttingListResponse w2),
                          detailedDescription = d\<rparr>),
                snd (cuttingList_of cuttingListResponse w2)))"
proof -
  obtain t r where pa: "Promise_all2 ip cp = (t, r)" by (cases "Promise_all2 ip cp")
  show ?thesis
  proof (cases r)
    case (Inl e)
    then show ?thesis
      by (simp add: generateAssetsFromDescription_def assms pa)
  next
    case (Inr both)
    obtain imgs response where both: "both = (imgs, response)" by (cases both)
    obtain v w3 where cl: "cuttingList_of response w2 = (v, w3)"
      by (cases "cuttingList_of response w2")
    show ?thesis
      by (simp add: generateAssetsFromDescription_def assms pa Inr both cl Let_def)
  qed
qed

lemma generateAssets_run:
  "\<exists>p w'. generateAssetsFromDescription ai d w = Some (p, w')
     \<and> cycle_extends d w w'
     \<and> (\<forall>T r. p = (T, Inr r) \<longrightarrow> detailedDescription r = d)"
proof -
  obtain cp w1 where c: "callApiWithRetry_default (random_source ai)
      (ai_generateContent ai (cuttingList_request d)) w = (cp, w1)"
    by (cases "callApiWithRetry_default (random_source ai)
      (ai_generateContent ai (cuttingList_request d)) w")
  have e1: "cycle_extends d w w1" using c by (rule cuttingList_call_extends)
  from image_batch_total [OF e1, of ai] obtain ip w2 where
    b: "runPromisesInBatches (imagePromiseFactories ai d) 3 w1 = Some (ip, w2)"
    and e2: "cycle_extends d w w2" by blast
  note u = generateAssets_unfold [OF c b]
  obtain t r where pa: "Promise_all2 ip cp = (t, r)" by (cases "Promise_all2 ip cp")
  show ?thesis
  proof (cases r)
    case (Inl e)
    have "generateAssetsFromDescription ai d w = Some ((t, Inl e), w2)"
      unfolding u pa Inl by simp
    with e2 show ?thesis by simp
  next
    case (Inr both)
    obtain imgs response where both: "both = (imgs, response)" by (cases both)
    obtain v w3 where cl: "cuttingList_of response w2 = (v, w3)"
      by (cases "cuttingList_of response w2")
    from cuttingList_of_extends [OF cl, of d] obtain evs where
      "trace w3 = trace w2 @ evs" "list_all (request_of_cycle d) evs" by blast
    with e2 have e3: "cycle_extends d w w3"
      by (rule cycle_extends_step)
    have "generateAssetsFromDescription ai d w =
        Some ((t, Inr \<lparr>imageViews = (if imageViews_of imgs \<noteq> []
                                       then Some (imageViews_of imgs) else None),
                          sketchUrl = sketchUrl_of imgs,
                          cuttingList = v,
                          detailedDescription = d\<rparr>), w3)"
      unfolding u pa Inr both by (simp add: cl)
    with e3 show ?thesis by simp
  qed
qed

lemma fixed_content_call:
  "callApiWithRetry_default (random_source (fixed_service imgs txt))
      (ai_generateContent (fixed_service imgs txt) req) w
     = ((50, Inr txt), emit (generateContent_call req) w)"
proof -
  have "ai_generateContent (fixed_service imgs txt) req w
      = ((50, Inr txt), emit (generateContent_call req) w)"
    by (simp add: ai_generateContent_def fixed_service_def)
  then show ?thesis
    by (simp add: callApiWithRetry_default_def callApiWithRetry_def loop_success)
qed

lemma fixed_images_call:
  "callApiWithRetry_default (random_source (fixed_service imgs txt))
      (ai_generateImages (fixed_service imgs txt) req) w
     = ((100, Inr imgs), emit (generateImages_call req) w)"
proof -
  have "ai_generateImages (fixed_service imgs txt) req w
      = ((100, Inr imgs), emit (generateImages_call req) w)"
    by (simp add: ai_generateImages_def fixed_service_def)
  then show ?thesis
    by (simp add: callApiWithRetry_default_def callApiWithRetry_def loop_success)
qed

lemma fixed_view_factory:
  "view_factory (fixed_service imgs txt) d view w
     = ((100, Inr (ViewImageResult view (first_imageBytes imgs))),
        emit (generateImages_call (view_request d view)) w)"
  by (simp add: view_factory_def fixed_images_call then_promise_def)

lemma fixed_sketch_factory:
  "sketch_factory (fixed_service imgs txt) d w
     = ((100, Inr (SketchImageResult (first_imageBytes imgs))),
        emit (generateImages_call (sketch_request d)) w)"
  by (simp add: sketch_factory_def fixed_images_call then_promise_def)

lemma fixed_batch:
  "\<exists>w2. runPromisesInBatches (imagePromiseFactories (fixed_service imgs txt) d) 3 w
     = Some ((200, Inr (map (\<lambda>view. ViewImageResult view (first_imageBytes imgs)) VIEWS
                        @ [SketchImageResult (first_imageBytes imgs)])), w2)"
  by (simp add: runPromisesInBatches_def runPromisesInBatches_loop.simps
      imagePromiseFactories_def VIEWS_def slice_def Promise_all_def last_settled_def
      fixed_view_factory fixed_sketch_factory)

lemma fixed_generateAssets:
  "\<exists>w2. generateAssetsFromDescription (fixed_service imgs txt) d w
     = Some ((200, Inr \<lparr>
          imageViews =
            (if imageViews_of (map (\<lambda>view. ViewImageResult view (first_imageBytes imgs)) VIEWS
                               @ [SketchImageResult (first_imageBytes imgs)]) \<noteq> []
             then Some (imageViews_of (map (\<lambda>view. ViewImageResult view (first_imageBytes imgs)) VIEWS
                               @ [SketchImageResult (first_imageBytes imgs)]))
             else None),
          sketchUrl = sketchUrl_of (map (\<lambda>view. ViewImageResult view (first_imageBytes imgs)) VIEWS
                               @ [SketchImageResult (first_imageBytes imgs)]),
          cuttingList = fst (cuttingList_of txt w2),
          detailedDescription = d\<rparr>), snd (cuttingList_of txt w2))"
proof -
  obtain w2 where b: "runPromisesInBatches (imagePromiseFactories (fixed_service imgs txt) d) 3
      (emit (generateContent_call (cuttingList_request d)) w)
     = Some ((200, Inr (map (\<lambda>view. ViewImageResult view (first_imageBytes imgs)) VIEWS
                        @ [SketchImageResult (first_imageBytes imgs)])), w2)"
    using fixed_batch by blast
  show ?thesis
    unfolding generateAssets_unfold [OF fixed_content_call b]
    by (rule exI [of _ w2]) (simp add: Promise_all2_def)
qed

lemma cuttingList_of_value:
  "fst (cuttingList_of response w) =
     (if trim (response_text response) = [] then JNull
      else case JSON_parse (trim (response_text response)) of Inl e \<Rightarrow> JNull | Inr v \<Rightarrow> v)"
  by (simp add: cuttingList_of_def Let_def split: sum.splits)

lemma JSON_parse_empty_object: "JSON_parse ''{}'' = Inr (JObject [])"
  by code_simp

lemma trim_empty_object: "trim ''{}'' = ''{}''"
  by (simp add: trim_def isWhiteSpace_def)

lemma then_promise_fulfilled:
  assumes "then_promise f q = (t, Inr x)"
  shows "\<exists>res. q = (t, Inr res) \<and> x = f res"
  using assms by (cases q) (auto simp: then_promise_def split: sum.splits)

lemma first_rejection_Cons_None:
  "first_rejection (p # ps) = None \<longleftrightarrow> (\<exists>t v. p = (t, Inr v)) \<and> first_rejection ps = None"
  by (simp add: first_rejection_None_iff)

lemma view_factories_fulfilled:
  assumes "start_all (map (view_factory ai d) vs) w = (ps, w')" and "first_rejection ps = None"
  shows "\<exists>bs. length bs = length vs
           \<and> fulfilled ps = map (\<lambda>(view, b). ViewImageResult view b) (zip vs bs)"
  using assms
proof (induction vs arbitrary: w ps)
  case Nil
  then show ?case by simp
next
  case (Cons view vs)
  obtain p w1 where f: "view_factory ai d view w = (p, w1)"
    by (cases "view_factory ai d view w")
  obtain qs w2 where r: "start_all (map (view_factory ai d) vs) w1 = (qs, w2)"
    by (cases "start_all (map (view_factory ai d) vs) w1")
  from Cons.prems(1) f r have ps: "ps = p # qs" and w': "w2 = w'" by simp_all
  from Cons.prems(2) obtain t x where p: "p = (t, Inr x)" and n: "first_rejection qs = None"
    unfolding ps first_rejection_Cons_None by blast
  obtain q where "p = then_promise (\<lambda>res. ViewImageResult view (first_imageBytes res)) q"
    using f by (auto simp: view_factory_def split: prod.splits)
  with p obtain res where x: "x = ViewImageResult view (first_imageBytes res)"
    using then_promise_fulfilled by metis
  from Cons.IH [OF r [unfolded w'] n] obtain bs where
    "length bs = length vs"
    "fulfilled qs = map (\<lambda>(view, b). ViewImageResult view b) (zip vs bs)"
    by blast
  then have "length (first_imageBytes res # bs) = length (view # vs)
      \<and> fulfilled ps = map (\<lambda>(view, b). ViewImageResult view b)
            (zip (view # vs) (first_imageBytes res # bs))"
    by (simp add: ps p x)
  then show ?case by blast
qed

lemma image_batch_results:
  assumes "runPromisesInBatches (imagePromiseFactories ai d) 3 w1 = Some ((t2, Inr imgs), w2)"
  shows "\<exists>bs sb. length bs = length VIEWS
           \<and> imgs = map (\<lambda>(view, b). ViewImageResult view b) (zip VIEWS bs) @ [SketchImageResult sb]"
proof -
  have "(0 :: nat) < 3" by simp
  from batch_loop_fulfilled [OF this assms [unfolded runPromisesInBatches_def]]
  obtain ps where st: "start_all (imagePromiseFactories ai d) w1 = (ps, w2)"
    and none: "first_rejection ps = None" and imgs: "imgs = fulfilled ps"
    by auto
  obtain pv wv where v: "start_all (map (view_factory ai d) VIEWS) w1 = (pv, wv)"
    by (cases "start_all (map (view_factory ai d) VIEWS) w1")
  obtain p w3 where s: "sketch_factory ai d wv = (p, w3)"
    by (cases "sketch_factory ai d wv")
  have ps: "ps = pv @ [p]"
    using st v s by (simp add: imagePromiseFactories_def start_all_append)
  from none have nv: "first_rejection pv = None" and np: "first_rejection [p] = None"
    by (simp_all add: ps first_rejection_append_None)
  from np obtain t x where p: "p = (t, Inr x)"
    unfolding first_rejection_Cons_None by blast
  obtain q where "p = then_promise (\<lambda>res. SketchImageResult (first_imageBytes res)) q"
    using s by (auto simp: sketch_factory_def split: prod.splits)
  with p obtain res where x: "x = SketchImageResult (first_imageBytes res)"
    using then_promise_fulfilled by metis
  from view_factories_fulfilled [OF v nv] obtain bs where
    "length bs = length VIEWS"
    "fulfilled pv = map (\<lambda>(view, b). ViewImageResult view b) (zip VIEWS bs)"
    by blast
  then have "length bs = length VIEWS
      \<and> imgs = map (\<lambda>(view, b). ViewImageResult view b) (zip VIEWS bs)
                @ [SketchImageResult (first_imageBytes res)]"
    by (simp add: imgs ps fulfilled_append p x)
  then show ?thesis by blast
qed

lemma imageViews_of_results:
  "imageViews_of (map (\<lambda>(view, b). ViewImageResult view b) xs @ [SketchImageResult sb])
     = map (\<lambda>(view, b). \<lparr>label = view, url = ''data:image/jpeg;base64,'' @ spliced b\<rparr>)
         (filter (\<lambda>(view, b). truthy b) xs)"
  by (induction xs) (auto simp: imageViews_of_def is_view_def)

lemma sketchUrl_of_results:
  "sketchUrl_of (map (\<lambda>(view, b). ViewImageResult view b) xs @ [SketchImageResult sb])
     = (if truthy sb then Some (''data:image/jpeg;base64,'' @ spliced sb) else None)"
  by (induction xs) (auto simp: sketchUrl_of_def is_sketch_def)

lemma cuttingList_of_any_world:
  "fst (cuttingList_of response w) = fst (cuttingList_of response u)"
  by (simp add: cuttingList_of_def Let_def split: sum.splits)

lemma generateAssets_fulfilled:
  assumes "callApiWithRetry_default (random_source ai)
      (ai_generateContent ai (cuttingList_request d)) w = ((t1, Inr response), w1)"
    and "runPromisesInBatches (imagePromiseFactories ai d) 3 w1 = Some ((t2, Inr imgs), w2)"
  shows "generateAssetsFromDescription ai d w =
     Some ((max t2 t1, Inr \<lparr>imageViews = (if imageViews_of imgs \<noteq> []
                                              then Some (imageViews_of imgs) else None),
                             sketchUrl = sketchUrl_of imgs,
                             cuttingList = fst (cuttingList_of response w2),
                             detailedDescription = d\<rparr>),
           snd (cuttingList_of response w2))"
  unfolding generateAssets_unfold [OF assms] by (simp add: Promise_all2_def)

lemma same_payloads:
  assumes "length bs = length vs"
    and "map (\<lambda>view. ViewImageResult view c) vs
           = map (\<lambda>(view, b). ViewImageResult view b) (zip vs bs)"
  shows "bs = replicate (length vs) c"
  using assms by (induction bs vs rule: list_induct2) auto

lemma cycle_after_description:
  assumes "callApiWithRetry_default (random_source ai) (ai_generateContent ai req) w = ((t, r), w1)"
  shows "\<exists>evs. trace w1 = trace w @ generateContent_call req # evs
           \<and> list_all (only_content req) evs"
  using retry_content_trace [OF assms] .

lemma editPrompt_of_directives:
  "editPrompt_of originalDescription edits
     = edit_preamble originalDescription @ concat (spec_directives nonempty edits)"
  by (simp add: editPrompt_of_def edit_preamble_def spec_directives_def directive_line_def
      nonempty_def Let_def)

lemma orchestrator_run:
  assumes call: "callApiWithRetry_default (random_source ai) (ai_generateContent ai req) w = ((t, r), w1)"
    and run: "run = (case ((t, r), w1) of
        ((t, Inl e), w1) \<Rightarrow> Some ((t, Inl e), w1)
      | ((t, Inr response), w1) \<Rightarrow>
          (let desc = trim (response_text response)
           in if desc = [] then Some ((t, Inl err), w1)
              else
                (case generateAssetsFromDescription ai desc w1 of
                   None \<Rightarrow> None
                 | Some ((t2, r2), w2) \<Rightarrow> Some ((t + t2, r2), w2))))"
  shows "\<exists>p w' evs. run = Some (p, w') \<and> trace w' = trace w @ generateContent_call req # evs"
proof -
  from retry_content_trace [OF call] obtain evs1 where
    t1: "trace w1 = trace w @ generateContent_call req # evs1" by blast
  show ?thesis
  proof (cases r)
    case (Inl e)
    with run t1 show ?thesis by simp
  next
    case (Inr response)
    show ?thesis
    proof (cases "trim (response_text response) = []")
      case True
      with run Inr t1 show ?thesis by simp
    next
      case False
      from generateAssets_run [of ai "trim (response_text response)" w1]
      obtain p2 w2 evs2 where g: "generateAssetsFromDescription ai (trim (response_text response)) w1
          = Some (p2, w2)" and t2: "trace w2 = trace w1 @ evs2"
        unfolding cycle_extends_def by blast
      obtain T2 r2 where p2: "p2 = (T2, r2)" by (cases p2)
      have "run = Some ((t + T2, r2), w2)"
        using run Inr False g p2 by simp
      moreover have "trace w2 = trace w @ generateContent_call req # (evs1 @ evs2)"
        using t1 t2 by simp
      ultimately show ?thesis by blast
    qed
  qed
qed



text \<open>
  Claim C1, as the code has it. When the structured-content call and the image batch
  are fulfilled, the cycle is fulfilled too (nothing is raised by the parsing step).
  What is parsed is the response text after trimming (\<open>String.prototype.trim\<close>), not
  the text itself. The cutting list is \<open>null\<close> when the trimmed text is empty or
  \<open>JSON.parse\<close> throws on the trimmed text; otherwise it is the value \<open>JSON.parse\<close>
  returns for the trimmed text, as it is, whether or not it has the CuttingList shape
  (no check of the shape is made).
\<close>

theorem generateAssetsFromDescription_cuttingList:
  assumes "callApiWithRetry_default (random_source ai)
      (ai_generateContent ai (cuttingList_request d)) w = ((t1, Inr response), w1)"
    and "runPromisesInBatches (imagePromiseFactories ai d) 3 w1 = Some ((t2, Inr allImageResults), w2)"
  shows "\<exists>T r w'.
           generateAssetsFromDescription ai d w = Some ((T, Inr r), w')
         \<and> cuttingList r =
             (if trim (response_text response) = [] then JNull
              else case JSON_parse (trim (response_text response)) of
                     Inl e \<Rightarrow> JNull
                   | Inr v \<Rightarrow> v)"
  unfolding generateAssets_fulfilled [OF assms]
  by (simp add: cuttingList_of_value)

theorem generateAssetsFromDescription_cuttingList_witness:
  "(\<exists>T r w'.
     generateAssetsFromDescription (fixed_service (image_of (Some ''QUJD'')) (text_of ''{not json''))
       ''A red house'' initial_world = Some ((T, Inr r), w')
   \<and> cuttingList r = JNull)
   \<and> (\<exists>T r w'.
     generateAssetsFromDescription
       (fixed_service (image_of (Some ''QUJD'')) (text_of ([CHR 0x0B] @ ''{}'' @ [CHR 0xA0])))
       ''A red house'' initial_world = Some ((T, Inr r), w')
   \<and> cuttingList r = JObject [])"
proof -
  let ?ai = "fixed_service (image_of (Some ''QUJD'')) (text_of ''{not json'')"
  have c: "callApiWithRetry_default (random_source ?ai)
      (ai_generateContent ?ai (cuttingList_request ''A red house'')) initial_world
     = ((50, Inr (text_of ''{not json'')),
        emit (generateContent_call (cuttingList_request ''A red house'')) initial_world)"
    by (rule fixed_content_call)
  obtain w2 where b: "runPromisesInBatches (imagePromiseFactories ?ai ''A red house'') 3
      (emit (generateContent_call (cuttingList_request ''A red house'')) initial_world)
     = Some ((200, Inr (map (\<lambda>view. ViewImageResult view (first_imageBytes (image_of (Some ''QUJD'')))) VIEWS
                        @ [SketchImageResult (first_imageBytes (image_of (Some ''QUJD'')))])), w2)"
    using fixed_batch by blast
  have t: "trim (response_text (text_of ''{not json'')) = ''{not json''"
    by (simp add: text_of_def trim_def isWhiteSpace_def)
  have j: "JSON_parse ''{not json'' = Inl (Error_instance ''SyntaxError'')"
    by code_simp
  let ?ai' = "fixed_service (image_of (Some ''QUJD'')) (text_of ([CHR 0x0B] @ ''{}'' @ [CHR 0xA0]))"
  have c': "callApiWithRetry_default (random_source ?ai')
      (ai_generateContent ?ai' (cuttingList_request ''A red house'')) initial_world
     = ((50, Inr (text_of ([CHR 0x0B] @ ''{}'' @ [CHR 0xA0]))),
        emit (generateContent_call (cuttingList_request ''A red house'')) initial_world)"
    by (rule fixed_content_call)
  obtain w2' where b': "runPromisesInBatches (imagePromiseFactories ?ai' ''A red house'') 3
      (emit (generateContent_call (cuttingList_request ''A red house'')) initial_world)
     = Some ((200, Inr (map (\<lambda>view. ViewImageResult view (first_imageBytes (image_of (Some ''QUJD'')))) VIEWS
                        @ [SketchImageResult (first_imageBytes (image_of (Some ''QUJD'')))])), w2')"
    using fixed_batch by blast
  have t': "trim (response_text (text_of ([CHR 0x0B] @ ''{}'' @ [CHR 0xA0]))) = ''{}''"
    by (simp add: text_of_def trim_def isWhiteSpace_def)
  have j': "JSON_parse ''{}'' = Inr (JObject [])"
    by (rule JSON_parse_empty_object)
  have "\<exists>T r w'.
     generateAssetsFromDescription ?ai ''A red house'' initial_world = Some ((T, Inr r), w')
   \<and> cuttingList r = JNull"
    using generateAssetsFromDescription_cuttingList [OF c b] unfolding t j by simp
  moreover have "\<exists>T r w'.
     generateAssetsFromDescription ?ai' ''A red house'' initial_world = Some ((T, Inr r), w')
   \<and> cuttingList r = JObject []"
    using generateAssetsFromDescription_cuttingList [OF c' b'] unfolding t' j' by simp
  ultimately show ?thesis by (rule conjI)
qed

text \<open>
  Claim C1 as it is stated fails where the response text is a JSON text of another
  shape: \<open>{}\<close> parses to the empty object, which has not the CuttingList shape, and the
  cycle returns that object as its cutting list, not \<open>null\<close>.
\<close>

theorem generateAssetsFromDescription_cuttingList_counterexample:
  "JSON_parse (trim ''{}'') = Inr (JObject [])
   \<and> \<not> spec_CuttingList_shape (JObject [])
   \<and> map_option cuttingList
       (returned (generateAssetsFromDescription
          (fixed_service (image_of (Some ''QUJD'')) (text_of ''{}'')) ''A red house'' initial_world))
     = Some (JObject [])
   \<and> JObject [] \<noteq> JNull"
proof -
  obtain w2 where run: "generateAssetsFromDescription
      (fixed_service (image_of (Some ''QUJD'')) (text_of ''{}'')) ''A red house'' initial_world
     = Some ((200, Inr \<lparr>
          imageViews =
            (if imageViews_of (map (\<lambda>view. ViewImageResult view (first_imageBytes (image_of (Some ''QUJD'')))) VIEWS
                               @ [SketchImageResult (first_imageBytes (image_of (Some ''QUJD'')))]) \<noteq> []
             then Some (imageViews_of (map (\<lambda>view. ViewImageResult view (first_imageBytes (image_of (Some ''QUJD'')))) VIEWS
                               @ [SketchImageResult (first_imageBytes (image_of (Some ''QUJD'')))]))
             else None),
          sketchUrl = sketchUrl_of (map (\<lambda>view. ViewImageResult view (first_imageBytes (image_of (Some ''QUJD'')))) VIEWS
                               @ [SketchImageResult (first_imageBytes (image_of (Some ''QUJD'')))]),
          cuttingList = fst (cuttingList_of (text_of ''{}'') w2),
          detailedDescription = ''A red house''\<rparr>), snd (cuttingList_of (text_of ''{}'') w2))"
    using fixed_generateAssets by blast
  have "fst (cuttingList_of (text_of ''{}'') w2) = JObject []"
    by (simp add: cuttingList_of_value text_of_def trim_empty_object JSON_parse_empty_object)
  then show ?thesis
    unfolding run by (simp add: returned_def trim_empty_object JSON_parse_empty_object property_of_def)
qed

text \<open>
  Claim C8, as the code has it. When the structured-content call and the image batch
  are fulfilled, the batch results are the five views, in the order of \<open>VIEWS\<close>, each
  with its payload, followed by the sketch with its payload. The cycle is fulfilled,
  and its image views are exactly the views whose payload is neither \<open>null\<close> nor the
  empty string, in that order, each as a data URI (\<open>null\<close> when there is none); the
  sketch is never among them; the sketch reference is the data URI of the sketch
  payload, \<open>null\<close> when that payload is \<open>null\<close> or empty; and the cutting list is
  computed from the structured-content response alone.
\<close>

theorem generateAssetsFromDescription_images:
  assumes "callApiWithRetry_default (random_source ai)
      (ai_generateContent ai (cuttingList_request d)) w = ((t1, Inr response), w1)"
    and "runPromisesInBatches (imagePromiseFactories ai d) 3 w1 = Some ((t2, Inr allImageResults), w2)"
  shows "\<exists>bs sb T r w'.
           length bs = length VIEWS
         \<and> allImageResults
             = map (\<lambda>(view, b). ViewImageResult view b) (zip VIEWS bs) @ [SketchImageResult sb]
         \<and> generateAssetsFromDescription ai d w = Some ((T, Inr r), w')
         \<and> imageViews r =
             (if filter (\<lambda>(view, b). truthy b) (zip VIEWS bs) = [] then None
              else Some (map (\<lambda>(view, b). \<lparr>label = view,
                                               url = ''data:image/jpeg;base64,'' @ spliced b\<rparr>)
                           (filter (\<lambda>(view, b). truthy b) (zip VIEWS bs))))
         \<and> sketchUrl r =
             (if truthy sb then Some (''data:image/jpeg;base64,'' @ spliced sb) else None)
         \<and> (\<forall>u. cuttingList r = fst (cuttingList_of response u))"
proof -
  from image_batch_results [OF assms(2)] obtain bs sb where
    len: "length bs = length VIEWS"
    and imgs: "allImageResults
        = map (\<lambda>(view, b). ViewImageResult view b) (zip VIEWS bs) @ [SketchImageResult sb]"
    by blast
  let ?r = "\<lparr>imageViews = (if imageViews_of allImageResults \<noteq> []
                             then Some (imageViews_of allImageResults) else None),
            sketchUrl = sketchUrl_of allImageResults,
            cuttingList = fst (cuttingList_of response w2),
            detailedDescription = d\<rparr>"
  have run: "generateAssetsFromDescription ai d w
      = Some ((max t2 t1, Inr ?r), snd (cuttingList_of response w2))"
    using assms by (rule generateAssets_fulfilled)
  have v: "imageViews ?r =
             (if filter (\<lambda>(view, b). truthy b) (zip VIEWS bs) = [] then None
              else Some (map (\<lambda>(view, b). \<lparr>label = view,
                                               url = ''data:image/jpeg;base64,'' @ spliced b\<rparr>)
                           (filter (\<lambda>(view, b). truthy b) (zip VIEWS bs))))"
    by (simp add: imgs imageViews_of_results)
  have s: "sketchUrl ?r =
             (if truthy sb then Some (''data:image/jpeg;base64,'' @ spliced sb) else None)"
    by (simp add: imgs sketchUrl_of_results)
  have c: "\<forall>u. cuttingList ?r = fst (cuttingList_of response u)"
    by (simp add: cuttingList_of_value)
  from len imgs run v s c show ?thesis by blast
qed


theorem generateAssetsFromDescription_images_witness:
  "\<exists>T r w'.
     generateAssetsFromDescription (fixed_service (image_of None) (text_of ''[]''))
       ''A red house'' initial_world = Some ((T, Inr r), w')
   \<and> imageViews r = None \<and> sketchUrl r = None \<and> cuttingList r = JArray []"
proof -
  let ?ai = "fixed_service (image_of None) (text_of ''[]'')"
  have c: "callApiWithRetry_default (random_source ?ai)
      (ai_generateContent ?ai (cuttingList_request ''A red house'')) initial_world
     = ((50, Inr (text_of ''[]'')),
        emit (generateContent_call (cuttingList_request ''A red house'')) initial_world)"
    by (rule fixed_content_call)
  obtain w2 where b: "runPromisesInBatches (imagePromiseFactories ?ai ''A red house'') 3
      (emit (generateContent_call (cuttingList_request ''A red house'')) initial_world)
     = Some ((200, Inr (map (\<lambda>view. ViewImageResult view (first_imageBytes (image_of None))) VIEWS
                        @ [SketchImageResult (first_imageBytes (image_of None))])), w2)"
    using fixed_batch by blast
  have n: "first_imageBytes (image_of None) = None"
    by (simp add: first_imageBytes_def image_of_def)
  from generateAssetsFromDescription_images [OF c b]
  obtain bs sb T r w' where len: "length bs = length VIEWS"
    and imgs: "map (\<lambda>view. ViewImageResult view (first_imageBytes (image_of None))) VIEWS
                 @ [SketchImageResult (first_imageBytes (image_of None))]
             = map (\<lambda>(view, b). ViewImageResult view b) (zip VIEWS bs) @ [SketchImageResult sb]"
    and run: "generateAssetsFromDescription ?ai ''A red house'' initial_world = Some ((T, Inr r), w')"
    and v: "imageViews r =
             (if filter (\<lambda>(view, b). truthy b) (zip VIEWS bs) = [] then None
              else Some (map (\<lambda>(view, b). \<lparr>label = view,
                                               url = ''data:image/jpeg;base64,'' @ spliced b\<rparr>)
                           (filter (\<lambda>(view, b). truthy b) (zip VIEWS bs))))"
    and s: "sketchUrl r =
             (if truthy sb then Some (''data:image/jpeg;base64,'' @ spliced sb) else None)"
    and cl: "\<forall>u :: unit world. cuttingList r = fst (cuttingList_of (text_of ''[]'') u)"
    by blast
  from imgs have sb: "sb = None"
    and m: "map (\<lambda>view. ViewImageResult view None) VIEWS
          = map (\<lambda>(view, b). ViewImageResult view b) (zip VIEWS bs)"
    by (simp_all add: n)
  from same_payloads [OF len m] have bs: "bs = replicate (length VIEWS) None" .
  have "filter (\<lambda>(view, b). truthy b) (zip VIEWS bs) = []"
    unfolding bs by (simp add: VIEWS_def truthy_def)
  with v have v': "imageViews r = None" by simp
  from s have s': "sketchUrl r = None" by (simp add: sb truthy_def)
  have j: "JSON_parse ''[]'' = Inr (JArray [])" by code_simp
  have t: "trim ''[]'' = ''[]''" by (simp add: trim_def isWhiteSpace_def)
  from cl have "cuttingList r = fst (cuttingList_of (text_of ''[]'') initial_world)"
    by blast
  then have c': "cuttingList r = JArray []"
    by (simp add: cuttingList_of_value text_of_def t j)
  from run v' s' c' show ?thesis by blast
qed

text \<open>
  Claim C8 as it is stated fails where a payload is the empty string: it is not
  \<open>null\<close>, yet the view is left out. With each of the five views answered by an empty
  payload, the cycle returns no image views at all.
\<close>

theorem generateAssetsFromDescription_images_counterexample:
  "first_imageBytes (image_of (Some [])) = Some []
   \<and> map_option imageViews
       (returned (generateAssetsFromDescription
          (fixed_service (image_of (Some [])) (text_of ''{}'')) ''A red house'' initial_world))
     = Some None"
proof -
  have n: "first_imageBytes (image_of (Some [])) = Some []"
    by (simp add: first_imageBytes_def image_of_def)
  have "imageViews_of (map (\<lambda>view. ViewImageResult view (Some [])) VIEWS
                               @ [SketchImageResult (Some [])]) = []"
    by (simp add: imageViews_of_def VIEWS_def truthy_def)
  then show ?thesis
    using fixed_generateAssets [of "image_of (Some [])" "text_of ''{}''" "''A red house''" initial_world]
    by (auto simp: returned_def n)
qed

text \<open>
  Claim C7. When the text-generation call (through the retrying wrapper) is fulfilled
  with a response whose text is empty after trimming (\<open>String.prototype.trim\<close>: the
  text is empty or holds white space only, the no-break space included),
  \<open>generateHouseDesign\<close> is
  rejected with the error the orchestrator itself raises, at the time the call
  settled, and the world is the one the text-generation call left: since the start of
  the cycle the trace has gained the description request (once per attempt), warnings
  and timers only, no image request and no cutting list request. The same holds for
  \<open>editHouseDesign\<close> with the edit instruction.
\<close>

theorem empty_description_is_raised:
  "(callApiWithRetry_default (random_source ai)
        (ai_generateContent ai (description_request userPrompt)) w = ((t, Inr response), w1)
      \<and> trim (response_text response) = []
    \<longrightarrow> generateHouseDesign ai userPrompt w
          = Some ((t, Inl (Error_instance
               ''Could not generate a detailed description for the house.'')), w1)
        \<and> (\<exists>evs. trace w1 = trace w @ generateContent_call (description_request userPrompt) # evs
                 \<and> list_all (only_content (description_request userPrompt)) evs))
   \<and> (callApiWithRetry_default (random_source ai)
        (ai_generateContent ai (edit_request originalDescription edits)) w = ((t, Inr response), w1)
      \<and> trim (response_text response) = []
    \<longrightarrow> editHouseDesign ai originalDescription edits w
          = Some ((t, Inl (Error_instance
               ''Could not generate an updated description for the house.'')), w1)
        \<and> (\<exists>evs. trace w1 = trace w @ generateContent_call (edit_request originalDescription edits) # evs
                 \<and> list_all (only_content (edit_request originalDescription edits)) evs))"
proof (intro conjI impI; elim conjE)
  assume c: "callApiWithRetry_default (random_source ai)
        (ai_generateContent ai (description_request userPrompt)) w = ((t, Inr response), w1)"
    and e: "trim (response_text response) = []"
  show "generateHouseDesign ai userPrompt w
          = Some ((t, Inl (Error_instance
               ''Could not generate a detailed description for the house.'')), w1)"
    by (simp add: generateHouseDesign_def c e)
  show "\<exists>evs. trace w1 = trace w @ generateContent_call (description_request userPrompt) # evs
                 \<and> list_all (only_content (description_request userPrompt)) evs"
    using c by (rule cycle_after_description)
next
  assume c: "callApiWithRetry_default (random_source ai)
        (ai_generateContent ai (edit_request originalDescription edits)) w = ((t, Inr response), w1)"
    and e: "trim (response_text response) = []"
  show "editHouseDesign ai originalDescription edits w
          = Some ((t, Inl (Error_instance
               ''Could not generate an updated description for the house.'')), w1)"
    by (simp add: editHouseDesign_def c e)
  show "\<exists>evs. trace w1 = trace w @ generateContent_call (edit_request originalDescription edits) # evs
                 \<and> list_all (only_content (edit_request originalDescription edits)) evs"
    using c by (rule cycle_after_description)
qed


theorem empty_description_is_raised_witness:
  "generateHouseDesign (fixed_service (image_of None) (text_of [CHR 0x20, CHR 0xA0, CHR 0x0A])) ''a castle'' initial_world
     = Some ((50, Inl (Error_instance
          ''Could not generate a detailed description for the house.'')),
        emit (generateContent_call (description_request ''a castle'')) initial_world)
   \<and> editHouseDesign (fixed_service (image_of None) (text_of [CHR 0x20, CHR 0xA0, CHR 0x0A])) ''A red house''
       \<lparr>primaryColor = ''blue'', secondaryColor = [], roofMaterial = [], featureHighlights = []\<rparr>
       initial_world
     = Some ((50, Inl (Error_instance
          ''Could not generate an updated description for the house.'')),
        emit (generateContent_call (edit_request ''A red house''
          \<lparr>primaryColor = ''blue'', secondaryColor = [], roofMaterial = [],
           featureHighlights = []\<rparr>)) initial_world)"
proof -
  let ?ai = "fixed_service (image_of None) (text_of [CHR 0x20, CHR 0xA0, CHR 0x0A])"
  let ?e = "\<lparr>primaryColor = ''blue'', secondaryColor = [], roofMaterial = [],
             featureHighlights = []\<rparr>"
  have blank: "trim (response_text (text_of [CHR 0x20, CHR 0xA0, CHR 0x0A])) = []"
    by (simp add: text_of_def trim_def isWhiteSpace_def)
  have c1: "callApiWithRetry_default (random_source ?ai)
      (ai_generateContent ?ai (description_request ''a castle'')) initial_world
     = ((50, Inr (text_of [CHR 0x20, CHR 0xA0, CHR 0x0A])),
        emit (generateContent_call (description_request ''a castle'')) initial_world)"
    by (rule fixed_content_call)
  have c2: "callApiWithRetry_default (random_source ?ai)
      (ai_generateContent ?ai (edit_request ''A red house'' ?e)) initial_world
     = ((50, Inr (text_of [CHR 0x20, CHR 0xA0, CHR 0x0A])),
        emit (generateContent_call (edit_request ''A red house'' ?e)) initial_world)"
    by (rule fixed_content_call)
  note th = empty_description_is_raised [of ?ai "''a castle''" initial_world 50 "text_of [CHR 0x20, CHR 0xA0, CHR 0x0A]"
      "emit (generateContent_call (description_request ''a castle'')) initial_world"]
  note th2 = empty_description_is_raised [of ?ai _ initial_world 50 "text_of [CHR 0x20, CHR 0xA0, CHR 0x0A]"
      "emit (generateContent_call (edit_request ''A red house'' ?e)) initial_world"
      "''A red house''" ?e]
  from th c1 blank have g: "generateHouseDesign ?ai ''a castle'' initial_world
     = Some ((50, Inl (Error_instance
          ''Could not generate a detailed description for the house.'')),
        emit (generateContent_call (description_request ''a castle'')) initial_world)"
    by blast
  from th2 c2 blank have e: "editHouseDesign ?ai ''A red house'' ?e initial_world
     = Some ((50, Inl (Error_instance
          ''Could not generate an updated description for the house.'')),
        emit (generateContent_call (edit_request ''A red house'' ?e)) initial_world)"
    by blast
  from g e show ?thesis by (rule conjI)
qed

text \<open>
  Claim C2, as the code has it. The edit instruction is the preamble, which states the
  prior description verbatim between quotation marks, followed by one directive line
  for each field that is not the empty string (nothing is trimmed: a field of blanks
  counts as present), in the order primary color, secondary color, roof material,
  feature highlights; a field that is the empty string adds no line; with all four
  fields empty the instruction is the preamble alone. In every case \<open>editHouseDesign\<close>
  ends, and the first thing it does is to send the description request that carries
  this instruction.
\<close>

theorem editHouseDesign_instruction:
  "editPrompt_of originalDescription edits
     = edit_preamble originalDescription @ concat (spec_directives nonempty edits)
   \<and> contents (edit_request originalDescription edits) = editPrompt_of originalDescription edits
   \<and> (\<exists>p w' evs.
         editHouseDesign ai originalDescription edits w = Some (p, w')
       \<and> trace w' = trace w @ generateContent_call (edit_request originalDescription edits) # evs)"
proof -
  obtain t r w1 where call: "callApiWithRetry_default (random_source ai)
      (ai_generateContent ai (edit_request originalDescription edits)) w = ((t, r), w1)"
    by (cases "callApiWithRetry_default (random_source ai)
      (ai_generateContent ai (edit_request originalDescription edits)) w") auto
  have "\<exists>p w' evs. editHouseDesign ai originalDescription edits w = Some (p, w')
       \<and> trace w' = trace w @ generateContent_call (edit_request originalDescription edits) # evs"
    using call
    by (rule orchestrator_run) (simp add: editHouseDesign_def call)
  then show ?thesis
    by (simp add: editPrompt_of_directives edit_request_def)
qed


theorem editHouseDesign_instruction_witness:
  "editPrompt_of ''A red house''
       \<lparr>primaryColor = [], secondaryColor = [], roofMaterial = [], featureHighlights = []\<rparr>
     = edit_preamble ''A red house''
   \<and> (\<exists>p w' evs.
         editHouseDesign (fixed_service (image_of None) (text_of ''A blue house'')) ''A red house''
           \<lparr>primaryColor = [], secondaryColor = [], roofMaterial = [], featureHighlights = []\<rparr>
           initial_world = Some (p, w')
       \<and> trace w' = generateContent_call (edit_request ''A red house''
           \<lparr>primaryColor = [], secondaryColor = [], roofMaterial = [],
            featureHighlights = []\<rparr>) # evs)"
  using editHouseDesign_instruction
    [of "''A red house''"
        "\<lparr>primaryColor = [], secondaryColor = [], roofMaterial = [], featureHighlights = []\<rparr>"
        "fixed_service (image_of None) (text_of ''A blue house'')" initial_world]
  by (simp add: spec_directives_def nonempty_def initial_world_def)

text \<open>
  Claim C2 as it is stated fails where a field holds blanks only: it is empty after
  trimming, yet the instruction gets its directive line.
\<close>

theorem editHouseDesign_instruction_counterexample:
  "trim '' '' = []
   \<and> editPrompt_of ''A red house''
       \<lparr>primaryColor = '' '', secondaryColor = [], roofMaterial = [], featureHighlights = []\<rparr>
     = edit_preamble ''A red house'' @ ''- Change the primary color to  .'' @ [CHR 0x0A]
   \<and> spec_directives nonempty_after_trim
       \<lparr>primaryColor = '' '', secondaryColor = [], roofMaterial = [], featureHighlights = []\<rparr>
     = []"
  by (simp add: editPrompt_of_directives spec_directives_def directive_line_def nonempty_def
      nonempty_after_trim_def trim_def isWhiteSpace_def)

end
